theory Spec2Isabelle
  imports Main
begin

section \<open>Python text operations used by the merge scripts\<close>

text \<open>
  The merge engine lives in \<^verbatim>\<open>merge.py\<close>; \<^verbatim>\<open>merge_script.py\<close> is its predecessor and
  defines functions of the same names. Definitions taken from \<^verbatim>\<open>merge.py\<close> keep the
  source's names; those taken from \<^verbatim>\<open>merge_script.py\<close> carry the suffix \<open>_script\<close>.

  A Python \<^verbatim>\<open>str\<close> is modelled as a \<^typ>\<open>string\<close>, a list of 8-bit characters read as
  the code points below 256. On these, whitespace (\<^verbatim>\<open>str.isspace\<close>, the class \<^verbatim>\<open>\s\<close>)
  is the set below, and case-insensitive matching of an ASCII letter accepts exactly
  its two ASCII cases.
\<close>

definition isspace :: "char \<Rightarrow> bool" where
  "isspace c =
     (let n = (of_char c :: nat)
      in (9 \<le> n \<and> n \<le> 13) \<or> (28 \<le> n \<and> n \<le> 32) \<or> n = 133 \<or> n = 160)"

definition lstrip :: "string \<Rightarrow> string" where
  "lstrip s = dropWhile isspace s"

definition rstrip :: "string \<Rightarrow> string" where
  "rstrip s = rev (dropWhile isspace (rev s))"

definition strip :: "string \<Rightarrow> string" where
  "strip s = rstrip (lstrip s)"

definition startswith :: "string \<Rightarrow> string \<Rightarrow> bool" where
  "startswith s p = (take (length p) s = p)"

text \<open>\<^verbatim>\<open>text[i:j]\<close> for indices \<open>0 \<le> i\<close>, \<open>0 \<le> j\<close>: empty when \<open>j \<le> i\<close>, clipped at the end.\<close>

definition slice :: "string \<Rightarrow> nat \<Rightarrow> nat \<Rightarrow> string" where
  "slice s i j = take (j - i) (drop i s)"

text \<open>\<^verbatim>\<open>sep.join(xs)\<close>.\<close>

fun join :: "string \<Rightarrow> string list \<Rightarrow> string" where
  "join sep [] = []"
| "join sep [x] = x"
| "join sep (x # y # ys) = x @ sep @ join sep (y # ys)"

text \<open>
  \<^verbatim>\<open>s.replace(old, new)\<close>: the occurrences of \<open>old\<close> are found from left to right without
  overlap; an empty \<open>old\<close> matches before every character and at the end.
\<close>

function replace :: "string \<Rightarrow> string \<Rightarrow> string \<Rightarrow> string" where
  "replace [] old new = (if old = [] then new else [])"
| "replace (c # cs) old new =
     (if old = [] then new @ c # replace cs old new
      else if startswith (c # cs) old then new @ replace (drop (length old) (c # cs)) old new
      else c # replace cs old new)"
  by pat_completeness auto
termination
  by (relation "measure (\<lambda>(s, old, new). length s)") auto

text \<open>\<^verbatim>\<open>str(n)\<close> for an integer, as the f-strings format counts and indices.\<close>

definition digit_char :: "nat \<Rightarrow> char" where
  "digit_char d = ''0123456789'' ! d"

fun str_nat :: "nat \<Rightarrow> string" where
  "str_nat n = (if n < 10 then [digit_char n] else str_nat (n div 10) @ [digit_char (n mod 10)])"

definition str_int :: "int \<Rightarrow> string" where
  "str_int i = (if i < 0 then CHR ''-'' # str_nat (nat (- i)) else str_nat (nat i))"

text \<open>The exceptions the scripts raise and catch.\<close>

datatype py_error = ValueError string | OtherException string


section \<open>Config Table Builder\<close>

definition lua_safe_val :: "string \<Rightarrow> string" where
  \<open>lua_safe_val val = replace (replace val [CHR 0x5C] [CHR 0x5C, CHR 0x5C]) ''"'' [CHR 0x5C, CHR 0x22]\<close>

definition dynamic_line :: "nat \<Rightarrow> string \<Rightarrow> string" where
  \<open>dynamic_line i safe_val = ''        dynamic'' @ str_nat i @ '' = "'' @ safe_val @ ''"''\<close>

definition build_version_table :: "string list \<Rightarrow> string" where
  "build_version_table values =
     (let lines = map (\<lambda>(i, val). dynamic_line i (lua_safe_val val)) (List.enumerate 1 values)
      in ''{\<newline>'' @ join '',\<newline>'' lines @ ''\<newline>    }'')"

definition config_table_text :: "string \<Rightarrow> string \<Rightarrow> string \<Rightarrow> string" where
  "config_table_text name row1 row2 =
     ''local '' @ name @ '' = {\<newline>    [1] = '' @ row1 @ '',\<newline>    [2] = '' @ row2 @ ''\<newline>}''"

definition build_lua_config_table ::
  "string \<Rightarrow> string list \<Rightarrow> string list \<Rightarrow> py_error + (string \<times> nat)" where
  "build_lua_config_table name dyn_list_v1 dyn_list_v2 =
     (if length dyn_list_v1 \<noteq> length dyn_list_v2
      then Inl (ValueError (''Dynamic value count mismatch for '' @ name @ '': ''
                  @ str_nat (length dyn_list_v1) @ '' vs '' @ str_nat (length dyn_list_v2)))
      else Inr (config_table_text name (build_version_table dyn_list_v1)
                  (build_version_table dyn_list_v2),
                length dyn_list_v1))"

text \<open>The predecessor script escapes the quote only.\<close>

definition build_version_table_script :: "string list \<Rightarrow> string" where
  \<open>build_version_table_script values =
     (let lines = map (\<lambda>(i, val). dynamic_line i (replace val ''"'' [CHR 0x5C, CHR 0x22]))
                    (List.enumerate 1 values)
      in ''{\<newline>'' @ join '',\<newline>'' lines @ ''\<newline>    }'')\<close>

definition build_lua_config_table_script ::
  "string \<Rightarrow> string list \<Rightarrow> string list \<Rightarrow> py_error + (string \<times> nat)" where
  "build_lua_config_table_script name dyn_list_v1 dyn_list_v2 =
     (if length dyn_list_v1 \<noteq> length dyn_list_v2
      then Inl (ValueError (''Dynamic value count mismatch for '' @ name @ '': ''
                  @ str_nat (length dyn_list_v1) @ '' vs '' @ str_nat (length dyn_list_v2)))
      else Inr (config_table_text name (build_version_table_script dyn_list_v1)
                  (build_version_table_script dyn_list_v2),
                length dyn_list_v1))"


section \<open>Regular expressions as the scripts use them\<close>

text \<open>
  The patterns of the scripts are built from character classes, concatenation,
  alternation, a greedy \<^verbatim>\<open>+\<close> on a class and a greedy \<^verbatim>\<open>?\<close>. \<open>match_lens r s\<close> lists the
  lengths of the prefixes of \<open>s\<close> that \<open>r\<close> matches, in the order in which the
  backtracking matcher of \<^verbatim>\<open>re\<close> finds them: the left alternative before the right
  one, the longer repetition before the shorter one.
\<close>

datatype rx =
    Class "char \<Rightarrow> bool"
  | Cat rx rx
  | Or rx rx
  | ClassPlus "char \<Rightarrow> bool"
  | Optional rx

fun class_plus_lens :: "(char \<Rightarrow> bool) \<Rightarrow> string \<Rightarrow> nat list" where
  "class_plus_lens p [] = []"
| "class_plus_lens p (c # cs) = (if p c then map Suc (class_plus_lens p cs) @ [1] else [])"

fun match_lens :: "rx \<Rightarrow> string \<Rightarrow> nat list" where
  "match_lens (Class p) s = (case s of [] \<Rightarrow> [] | c # cs \<Rightarrow> if p c then [1] else [])"
| "match_lens (Cat a b) s =
     concat (map (\<lambda>n. map (\<lambda>m. n + m) (match_lens b (drop n s))) (match_lens a s))"
| "match_lens (Or a b) s = match_lens a s @ match_lens b s"
| "match_lens (ClassPlus p) s = class_plus_lens p s"
| "match_lens (Optional a) s = match_lens a s @ [0]"

text \<open>
  \<^verbatim>\<open>pattern.search\<close> from a position: \<open>s\<close> is the text from \<open>start\<close> on. The first
  attempt refuses an empty match when \<open>must_advance\<close> is set (the previous match was
  empty and ended here); later attempts do not.
\<close>

definition candidates :: "rx \<Rightarrow> string \<Rightarrow> bool \<Rightarrow> nat list" where
  "candidates r s must_advance =
     (if must_advance then filter (\<lambda>n. 0 < n) (match_lens r s) else match_lens r s)"

fun search :: "rx \<Rightarrow> string \<Rightarrow> nat \<Rightarrow> bool \<Rightarrow> (nat \<times> nat) option" where
  "search r s start must_advance =
     (case candidates r s must_advance of
        n # _ \<Rightarrow> Some (start, start + n)
      | [] \<Rightarrow> (case s of [] \<Rightarrow> None | c # cs \<Rightarrow> search r cs (Suc start) False))"

text \<open>\<^verbatim>\<open>pattern.finditer(text)\<close>: the spans \<open>(m.start(), m.end())\<close> of the matches, in order.\<close>

function finditer_from :: "rx \<Rightarrow> string \<Rightarrow> nat \<Rightarrow> bool \<Rightarrow> (nat \<times> nat) list" where
  "finditer_from r text pos must_advance =
     (if length text < pos then []
      else case search r (drop pos text) pos must_advance of
             None \<Rightarrow> []
           | Some (s, e) \<Rightarrow> (s, e) # finditer_from r text e (e = s))"
  by pat_completeness auto

lemma class_plus_lens_bound: "n \<in> set (class_plus_lens p s) \<Longrightarrow> 0 < n \<and> n \<le> length s"
  by (induction s arbitrary: n) (auto split: if_splits)

lemma match_lens_bound: "n \<in> set (match_lens r s) \<Longrightarrow> n \<le> length s"
proof (induction r arbitrary: n s)
  case (Class p)
  then show ?case by (auto split: list.splits if_splits)
next
  case (Cat a b)
  from Cat.prems obtain i j where i: "i \<in> set (match_lens a s)"
    and j: "j \<in> set (match_lens b (drop i s))" and n: "n = i + j"
    by auto
  from Cat.IH(1)[OF i] Cat.IH(2)[OF j] n show ?case by simp
next
  case (Or a b)
  then show ?case by auto
next
  case (ClassPlus p)
  then show ?case using class_plus_lens_bound by auto
next
  case (Optional a)
  then show ?case by auto
qed

lemma candidates_bound:
  "n \<in> set (candidates r s adv) \<Longrightarrow> n \<le> length s \<and> (adv \<longrightarrow> 0 < n)"
  using match_lens_bound by (auto simp: candidates_def split: if_splits)

lemma search_bounds:
  "search r s start adv = Some (b, e) \<Longrightarrow>
     start \<le> b \<and> b \<le> e \<and> e \<le> start + length s \<and> (adv \<longrightarrow> start < e)"
proof (induction r s start adv rule: search.induct)
  case (1 r s start must_advance)
  show ?case
  proof (cases "candidates r s must_advance")
    case (Cons n ns)
    then have "n \<in> set (candidates r s must_advance)"
      by simp
    then have "n \<le> length s" and "must_advance \<longrightarrow> 0 < n"
      using candidates_bound by auto
    moreover from "1.prems" Cons have "b = start" and "e = start + n"
      by simp_all
    ultimately show ?thesis by auto
  next
    case Nil
    show ?thesis
    proof (cases s)
      case empty: Nil
      with Nil "1.prems" show ?thesis by simp
    next
      case (Cons c cs)
      with Nil "1.prems" have "search r cs (Suc start) False = Some (b, e)"
        by simp
      from "1.IH"[OF Nil Cons this] Cons show ?thesis by auto
    qed
  qed
qed

termination finditer_from
proof (relation "measure (\<lambda>(r, t, pos, adv). 2 * (Suc (length t) - pos) + (if adv then 0 else 1))")
  show "wf (measure (\<lambda>(r, t, pos, adv). 2 * (Suc (length t) - pos) + (if adv then 0 else 1)))"
    by simp
next
  fix r :: rx and t :: string and pos :: nat and must_advance :: bool
    and x2 :: "nat \<times> nat" and x y :: nat
  assume le: "\<not> length t < pos"
    and found: "search r (drop pos t) pos must_advance = Some x2"
    and x2: "(x, y) = x2"
  from found x2 have "search r (drop pos t) pos must_advance = Some (x, y)"
    by simp
  from search_bounds[OF this] le
  have "pos \<le> y" and "y \<le> length t" and "must_advance \<longrightarrow> pos < y" and "x \<le> y" and "pos \<le> x"
    by auto
  then show "((r, t, y, y = x), r, t, pos, must_advance)
      \<in> measure (\<lambda>(r, t, pos, adv). 2 * (Suc (length t) - pos) + (if adv then 0 else 1))"
    by (cases must_advance) auto
qed

declare search.simps [simp del]

declare finditer_from.simps [simp del]

definition finditer :: "rx \<Rightarrow> string \<Rightarrow> (nat \<times> nat) list" where
  "finditer r text = finditer_from r text 0 False"


section \<open>Dynamic-Token Extractor\<close>

definition lower_ascii :: "char \<Rightarrow> char" where
  "lower_ascii c =
     (let n = (of_char c :: nat) in if 65 \<le> n \<and> n \<le> 90 then char_of (n + 32) else c)"

definition lit :: "char \<Rightarrow> rx" where
  "lit c = Class (\<lambda>d. d = c)"

text \<open>A letter of a pattern compiled with \<^verbatim>\<open>re.IGNORECASE\<close>.\<close>

definition lit_ci :: "char \<Rightarrow> rx" where
  "lit_ci c = Class (\<lambda>d. lower_ascii d = lower_ascii c)"

fun cats :: "rx list \<Rightarrow> rx" where
  "cats [r] = r"
| "cats (r # rs) = Cat r (cats rs)"
| "cats [] = Optional (Class (\<lambda>d. False))"

definition hex_char :: "char \<Rightarrow> bool" where
  "hex_char c =
     (let n = (of_char c :: nat)
      in (48 \<le> n \<and> n \<le> 57) \<or> (65 \<le> n \<and> n \<le> 70) \<or> (97 \<le> n \<and> n \<le> 102))"

text \<open>The class \<^verbatim>\<open>[^"+\s\[\](){},]\<close> of an unquoted module name.\<close>

definition name_char :: "char \<Rightarrow> bool" where
  \<open>name_char c = (c \<notin> set ''"+[](){},'' \<and> \<not> isspace c)\<close>

definition DYN_PATTERN :: rx where
  \<open>DYN_PATTERN =
     Cat (Or (cats [lit CHR 0x22, ClassPlus (\<lambda>c. c \<noteq> CHR 0x22), lit CHR ''.'',
                    lit_ci CHR ''e'', lit_ci CHR ''x'', lit_ci CHR ''e'', lit CHR 0x22, lit CHR ''+''])
             (cats [ClassPlus name_char, lit CHR ''.'',
                    lit_ci CHR ''e'', lit_ci CHR ''x'', lit_ci CHR ''e'', lit CHR ''+'']))
         (Cat (ClassPlus hex_char) (Optional (lit CHR '':'')))\<close>

text \<open>The pattern \<^verbatim>\<open>merge_script.py\<close> compiles inside \<^verbatim>\<open>merge_asm_scripts\<close>.\<close>

definition dyn_pattern_script :: rx where
  \<open>dyn_pattern_script =
     Cat (Or (cats (lit CHR 0x22 # map lit_ci ''AssassinsCreedIIGame'' @ [lit CHR ''.'',
                    lit_ci CHR ''e'', lit_ci CHR ''x'', lit_ci CHR ''e'', lit CHR 0x22, lit CHR ''+'']))
             (cats (map lit_ci ''AssassinsCreedIIGame'' @ [lit CHR ''.'',
                    lit_ci CHR ''e'', lit_ci CHR ''x'', lit_ci CHR ''e'', lit CHR ''+''])))
         (Cat (ClassPlus hex_char) (Optional (lit CHR '':'')))\<close>

text \<open>
  The loop of \<^verbatim>\<open>process_section\<close> over the matches, with its three variables
  \<open>result\<close>, \<open>dyn_list\<close> and \<open>last_index\<close>; \<open>m.group(0)\<close> is \<open>text[start:end]\<close>.
\<close>

fun process_loop ::
  "string \<Rightarrow> (nat \<times> nat) list \<Rightarrow> string list \<Rightarrow> string list \<Rightarrow> nat
     \<Rightarrow> string list \<times> string list \<times> nat" where
  "process_loop text [] result dyn_list last_index = (result, dyn_list, last_index)"
| "process_loop text ((start, end) # ms) result dyn_list last_index =
     process_loop text ms (result @ [slice text last_index start, ''%s''])
       (dyn_list @ [slice text start end]) end"

definition process_section :: "string \<Rightarrow> rx \<Rightarrow> string \<times> string list" where
  "process_section text pattern =
     (case process_loop text (finditer pattern text) [] [] 0 of
        (result, dyn_list, last_index) \<Rightarrow>
          (concat (result @ [drop last_index text]), dyn_list))"


section \<open>Section Splitter\<close>

text \<open>\<^verbatim>\<open>re.split(pattern, text, maxsplit=1)\<close> for a pattern that is one capturing group.\<close>

definition re_split1 :: "rx \<Rightarrow> string \<Rightarrow> string list" where
  "re_split1 r text =
     (case search r text 0 False of
        None \<Rightarrow> [text]
      | Some (s, e) \<Rightarrow> [take s text, slice text s e, drop e text])"

definition DISABLE_PATTERN :: rx where
  "DISABLE_PATTERN = cats (lit CHR ''['' # map lit_ci ''DISABLE'' @ [lit CHR '']''])"

text \<open>The first three lines of \<^verbatim>\<open>split_asm_sections\<close>, the same in both scripts.\<close>

definition consume_enable_header :: "string \<Rightarrow> string" where
  "consume_enable_header text0 =
     (let text1 = lstrip text0
      in if startswith text1 ''[ENABLE]''
         then lstrip (drop (length ''[ENABLE]'') text1) else text1)"

definition split_asm_sections :: "string \<Rightarrow> string \<times> string" where
  "split_asm_sections text0 =
     (let text2 = consume_enable_header text0;
          parts = re_split1 DISABLE_PATTERN text2;
          enable = strip (parts ! 0);
          disable = (if length parts > 1
                     then (if length parts > 2 then strip (parts ! 2) else [])
                     else [])
      in (enable, disable))"

text \<open>\<^verbatim>\<open>s.split(sep)\<close> for a non-empty separator, as \<^verbatim>\<open>merge_script.py\<close> splits.\<close>

function split_on :: "string \<Rightarrow> string \<Rightarrow> string \<Rightarrow> string list" where
  "split_on sep acc [] = [acc]"
| "split_on sep acc (c # cs) =
     (if sep \<noteq> [] \<and> startswith (c # cs) sep
      then acc # split_on sep [] (drop (length sep) (c # cs))
      else split_on sep (acc @ [c]) cs)"
  by pat_completeness auto
termination
  by (relation "measure (\<lambda>(sep, acc, s). length s)") auto

definition split_asm_sections_script :: "string \<Rightarrow> string \<times> string" where
  "split_asm_sections_script text0 =
     (let text2 = consume_enable_header text0;
          parts = split_on ''[DISABLE]'' [] text2;
          enable = strip (parts ! 0);
          disable = (if length parts > 1 then strip (parts ! 1) else [])
      in (enable, disable))"


section \<open>Script Assembler\<close>

text \<open>
  \<open>dyn_count\<close> is a Python \<^verbatim>\<open>int\<close>. The local \<^verbatim>\<open>lua_template_str\<close> of the source is never
  read and is left out.
\<close>

definition build_script_part :: "string \<Rightarrow> int \<Rightarrow> string \<Rightarrow> string \<Rightarrow> string" where
  "build_script_part template dyn_count script_var addr_prefix =
     (let placeholder = ''__TEMP_PLACEHOLDER__'';
          template_escaped =
            replace (replace (replace template ''%s'' placeholder) ''%'' ''%%'') placeholder ''%s''
      in if dyn_count > 0
         then (let dyn_keys =
                     join '', '' (map (\<lambda>i. addr_prefix @ ''.dynamic'' @ str_int i) [1..dyn_count])
               in ''local '' @ script_var @ '' = string.format([==[\<newline>'' @ template_escaped
                    @ ''\<newline>]==], '' @ dyn_keys @ '')'')
         else ''local '' @ script_var @ '' = [==[\<newline>'' @ template @ ''\<newline>]==]'')"

text \<open>
  \<^verbatim>\<open>merge_script.py\<close> builds the two parts inline in \<^verbatim>\<open>merge_asm_scripts\<close>, once with
  \<^verbatim>\<open>enableScript\<close>/\<^verbatim>\<open>addrE\<close> and once with \<^verbatim>\<open>disableScript\<close>/\<^verbatim>\<open>addrD\<close>; the template is
  used as it is in both branches.
\<close>

definition script_part_script :: "string \<Rightarrow> nat \<Rightarrow> string \<Rightarrow> string \<Rightarrow> string" where
  "script_part_script template num script_var addr_prefix =
     (if num > 0
      then (let dyn_keys =
                  join '', '' (map (\<lambda>i. addr_prefix @ ''.dynamic'' @ str_nat i) [1..<num + 1])
            in ''local '' @ script_var @ '' = string.format([==[\<newline>'' @ template
                 @ ''\<newline>]==], '' @ dyn_keys @ '')'')
      else ''local '' @ script_var @ '' = [==[\<newline>'' @ template @ ''\<newline>]==]'')"


section \<open>Merge Orchestrator\<close>

definition disable_logic_text :: "string \<Rightarrow> nat \<Rightarrow> string" where
  \<open>disable_logic_text disable_template1 num_disable =
     (if disable_template1 \<noteq> [] \<or> num_disable > 0
      then concat
        [''\<newline>'',
         ''if disableInfo and disableInfo.info then\<newline>'',
         ''    autoAssemble(disableScript, disableInfo.info)\<newline>'',
         ''else\<newline>'',
         ''    autoAssemble(disableScript) -- Might do nothing if script is empty, that'',
         [CHR 0x27], ''s okay\<newline>'',
         ''end\<newline>'',
         ''disableInfo = nil'']
      else ''disableInfo = nil -- No disable script'')\<close>

definition merged_script_text ::
  "string \<Rightarrow> string \<Rightarrow> string \<Rightarrow> string \<Rightarrow> string \<Rightarrow> string" where
  \<open>merged_script_text lua_config_enable enable_part lua_config_disable disable_part disable_logic =
     concat
       [''[ENABLE]\<newline>'',
        ''{$lua}\<newline>'',
        ''if syntaxcheck then return end\<newline>'',
        ''\<newline>'',
        lua_config_enable, ''\<newline>'',
        ''\<newline>'',
        ''local addrE = config_enable[version]\<newline>'',
        ''if not addrE then error("Could not determine addresses for the current game version (" .. tostring(version) .. ")") end\<newline>'',
        ''\<newline>'',
        enable_part, ''\<newline>'',
        ''\<newline>'',
        ''local success, info = autoAssemble(enableScript)\<newline>'',
        ''if not success then\<newline>'',
        ''    error("Assembly failed: " .. tostring(info))\<newline>'',
        ''end\<newline>'',
        ''\<newline>'',
        ''-- Save disable info for use in the disable section\<newline>'',
        ''disableInfo = { info = info } -- Store assembly info (registers, allocations)\<newline>'',
        ''{$asm}\<newline>'',
        ''\<newline>'',
        ''[DISABLE]\<newline>'',
        ''{$lua}\<newline>'',
        ''if syntaxcheck then return end\<newline>'',
        ''\<newline>'',
        lua_config_disable, ''\<newline>'',
        ''\<newline>'',
        ''local addrD = config_disable[version]\<newline>'',
        ''if not addrD then error("Could not determine disable addresses for the current game version (" .. tostring(version) .. ")") end\<newline>'',
        ''\<newline>'',
        disable_part, ''\<newline>'',
        ''\<newline>'',
        disable_logic, ''\<newline>'',
        ''{$asm}\<newline>'']\<close>

definition merge_asm_scripts :: "string \<Rightarrow> string \<Rightarrow> py_error + string" where
  "merge_asm_scripts asm1 asm2 =
     (case split_asm_sections asm1 of (enable1, disable1) \<Rightarrow>
      case split_asm_sections asm2 of (enable2, disable2) \<Rightarrow>
      case process_section enable1 DYN_PATTERN of (enable_template1, dyn_enable_v1) \<Rightarrow>
      case process_section enable2 DYN_PATTERN of (enable_template2, dyn_enable_v2) \<Rightarrow>
      case process_section disable1 DYN_PATTERN of (disable_template1, dyn_disable_v1) \<Rightarrow>
      case process_section disable2 DYN_PATTERN of (disable_template2, dyn_disable_v2) \<Rightarrow>
        if length dyn_enable_v1 \<noteq> length dyn_enable_v2
        then Inl (ValueError (''Mismatch in dynamic values count in ENABLE sections (''
                    @ str_nat (length dyn_enable_v1) @ '' vs ''
                    @ str_nat (length dyn_enable_v2) @ '')''))
        else if length dyn_disable_v1 \<noteq> length dyn_disable_v2
        then Inl (ValueError (''Mismatch in dynamic values count in DISABLE sections (''
                    @ str_nat (length dyn_disable_v1) @ '' vs ''
                    @ str_nat (length dyn_disable_v2) @ '')''))
        else
          (case build_lua_config_table ''config_enable'' dyn_enable_v1 dyn_enable_v2 of
             Inl err \<Rightarrow> Inl err
           | Inr (lua_config_enable, num_enable) \<Rightarrow>
          (case build_lua_config_table ''config_disable'' dyn_disable_v1 dyn_disable_v2 of
             Inl err \<Rightarrow> Inl err
           | Inr (lua_config_disable, num_disable) \<Rightarrow>
               (let enable_part =
                      build_script_part enable_template1 (int num_enable) ''enableScript'' ''addrE'';
                    disable_part =
                      build_script_part disable_template1 (int num_disable) ''disableScript'' ''addrD'';
                    disable_logic = disable_logic_text disable_template1 num_disable
                in Inr (merged_script_text lua_config_enable enable_part
                          lua_config_disable disable_part disable_logic)))))"

definition merged_script_text_script ::
  "string \<Rightarrow> string \<Rightarrow> string \<Rightarrow> string \<Rightarrow> string" where
  \<open>merged_script_text_script lua_config_enable enable_part lua_config_disable disable_part =
     concat
       [''[ENABLE]\<newline>'',
        ''{$lua}\<newline>'',
        ''if syntaxcheck then return end\<newline>'',
        ''\<newline>'',
        lua_config_enable, ''\<newline>'',
        ''\<newline>'',
        ''local addrE = config_enable[version]\<newline>'',
        ''\<newline>'',
        enable_part, ''\<newline>'',
        ''\<newline>'',
        ''local success, info = autoAssemble(enableScript)\<newline>'',
        ''if not success then\<newline>'',
        ''    error("Assembly failed: " .. tostring(info))\<newline>'',
        ''end\<newline>'',
        ''\<newline>'',
        ''-- Save disable info for use in the disable section\<newline>'',
        ''disableInfo = { info = info }\<newline>'',
        ''{$asm}\<newline>'',
        ''\<newline>'',
        ''[DISABLE]\<newline>'',
        ''{$lua}\<newline>'',
        ''if syntaxcheck then return end\<newline>'',
        ''\<newline>'',
        lua_config_disable, ''\<newline>'',
        ''\<newline>'',
        ''local addrD = config_disable[version]\<newline>'',
        ''\<newline>'',
        disable_part, ''\<newline>'',
        ''\<newline>'',
        ''if disableInfo then\<newline>'',
        ''    autoAssemble(disableScript, disableInfo.info)\<newline>'',
        ''else\<newline>'',
        ''    autoAssemble(disableScript)\<newline>'',
        ''end\<newline>'',
        ''disableInfo = nil\<newline>'',
        ''{$asm}'']\<close>

definition merge_asm_scripts_script :: "string \<Rightarrow> string \<Rightarrow> py_error + string" where
  "merge_asm_scripts_script asm1 asm2 =
     (case split_asm_sections_script asm1 of (enable1, disable1) \<Rightarrow>
      case split_asm_sections_script asm2 of (enable2, disable2) \<Rightarrow>
      case process_section enable1 dyn_pattern_script of (enable_template1, dyn_enable_v1) \<Rightarrow>
      case process_section enable2 dyn_pattern_script of (enable_template2, dyn_enable_v2) \<Rightarrow>
      case process_section disable1 dyn_pattern_script of (disable_template1, dyn_disable_v1) \<Rightarrow>
      case process_section disable2 dyn_pattern_script of (disable_template2, dyn_disable_v2) \<Rightarrow>
        if length dyn_enable_v1 \<noteq> length dyn_enable_v2
        then Inl (ValueError ''Mismatch in dynamic values count in ENABLE sections'')
        else if length dyn_disable_v1 \<noteq> length dyn_disable_v2
        then Inl (ValueError ''Mismatch in dynamic values count in DISABLE sections'')
        else
          (case build_lua_config_table_script ''config_enable'' dyn_enable_v1 dyn_enable_v2 of
             Inl err \<Rightarrow> Inl err
           | Inr (lua_config_enable, num_enable) \<Rightarrow>
          (case build_lua_config_table_script ''config_disable'' dyn_disable_v1 dyn_disable_v2 of
             Inl err \<Rightarrow> Inl err
           | Inr (lua_config_disable, num_disable) \<Rightarrow>
               Inr (merged_script_text_script lua_config_enable
                      (script_part_script enable_template1 num_enable ''enableScript'' ''addrE'')
                      lua_config_disable
                      (script_part_script disable_template1 num_disable ''disableScript'' ''addrD'')))))"


section \<open>Documents and the Entry Matcher\<close>

text \<open>
  An \<^verbatim>\<open>ET.Element\<close> is a mutable object. The tree holds, for every element, its
  identity, tag and children; the \<^verbatim>\<open>text\<close> attributes live in a store indexed by
  identity, where \<open>None\<close> is Python's \<^verbatim>\<open>None\<close>. A dictionary from identifiers to
  elements is the list of its items in insertion order, holding identities.
\<close>

type_synonym addr = nat

datatype element = Element (ref: addr) (tag: string) (children: "element list")

type_synonym texts = "addr \<Rightarrow> string option"

type_synonym asm_map = "(string \<times> addr) list"

text \<open>\<^verbatim>\<open>elem.iter(tag)\<close>: the element and all elements below it in document order, by tag.\<close>

fun iter_all :: "element \<Rightarrow> element list" where
  "iter_all (Element a t cs) = Element a t cs # concat (map iter_all cs)"

definition iter :: "element \<Rightarrow> string \<Rightarrow> element list" where
  "iter root t = filter (\<lambda>e. tag e = t) (iter_all root)"

text \<open>\<^verbatim>\<open>elem.find(tag)\<close>: the first direct child with the tag.\<close>

definition find_child :: "element \<Rightarrow> string \<Rightarrow> element option" where
  "find_child e t = List.find (\<lambda>c. tag c = t) (children e)"

text \<open>\<^verbatim>\<open>mapping[key] = value\<close>: an existing key keeps its place, a new one goes last.\<close>

fun dict_set :: "asm_map \<Rightarrow> string \<Rightarrow> addr \<Rightarrow> asm_map" where
  "dict_set [] k v = [(k, v)]"
| "dict_set ((k', v') # m) k v = (if k' = k then (k, v) # m else (k', v') # dict_set m k v)"

text \<open>The body of the loop of \<^verbatim>\<open>get_assembler_scripts\<close> for one \<^verbatim>\<open>CheatEntry\<close>.\<close>

definition scan_cheat :: "element \<Rightarrow> asm_map \<times> texts \<Rightarrow> asm_map \<times> texts" where
  "scan_cheat cheat st =
     (case st of (mapping, txt) \<Rightarrow>
      case find_child cheat ''ID'' of
        None \<Rightarrow> (mapping, txt)
      | Some id_elem \<Rightarrow>
          (case txt (ref id_elem) of
             None \<Rightarrow> (mapping, txt)
           | Some id_text \<Rightarrow>
               if id_text = [] then (mapping, txt)
               else
                 (let cheat_id = strip id_text
                  in case find_child cheat ''AssemblerScript'' of
                       None \<Rightarrow> (mapping, txt)
                     | Some asm_elem \<Rightarrow>
                         (case txt (ref asm_elem) of
                            Some asm_text \<Rightarrow> (dict_set mapping cheat_id (ref asm_elem), txt)
                          | None \<Rightarrow>
                              (dict_set mapping cheat_id (ref asm_elem),
                               txt(ref asm_elem \<mapsto> []))))))"

definition get_assembler_scripts :: "element \<Rightarrow> texts \<Rightarrow> asm_map \<times> texts" where
  "get_assembler_scripts tree txt =
     foldl (\<lambda>st cheat. scan_cheat cheat st) ([], txt) (iter tree ''CheatEntry'')"

text \<open>
  \<^verbatim>\<open>merge_cheat_entries\<close> keeps three counters, mutates elements of the first map and
  logs one message per entry. The state holds the store, the counters and, for each
  logging call of the loop body, the identifier it names and which call it was.
\<close>

datatype outcome = Merged | Failed py_error | Skipped

record merge_state =
  texts_of :: texts
  merged_count :: nat
  skipped_count :: nat
  error_count :: nat
  logged :: "(string \<times> outcome) list"

text \<open>\<^verbatim>\<open>elem.text or ""\<close>.\<close>

definition text_or_empty :: "string option \<Rightarrow> string" where
  "text_or_empty t = (case t of None \<Rightarrow> [] | Some s \<Rightarrow> s)"

definition merge_entry :: "asm_map \<Rightarrow> string \<times> addr \<Rightarrow> merge_state \<Rightarrow> merge_state" where
  "merge_entry asm_map2 item st =
     (case item of (cheat_id, asm_elem1) \<Rightarrow>
      case map_of asm_map2 cheat_id of
        Some asm_elem2 \<Rightarrow>
          (let asm_text1 = text_or_empty (texts_of st asm_elem1);
               asm_text2 = text_or_empty (texts_of st asm_elem2)
           in case merge_asm_scripts asm_text1 asm_text2 of
                Inr merged_text \<Rightarrow>
                  st\<lparr>texts_of := (texts_of st)(asm_elem1 \<mapsto> merged_text),
                     merged_count := merged_count st + 1,
                     logged := logged st @ [(cheat_id, Merged)]\<rparr>
              | Inl (ValueError ve) \<Rightarrow>
                  st\<lparr>error_count := error_count st + 1,
                     logged := logged st @ [(cheat_id, Failed (ValueError ve))]\<rparr>
              | Inl (OtherException e) \<Rightarrow>
                  st\<lparr>error_count := error_count st + 1,
                     logged := logged st @ [(cheat_id, Failed (OtherException e))]\<rparr>)
      | None \<Rightarrow>
          st\<lparr>skipped_count := skipped_count st + 1,
             logged := logged st @ [(cheat_id, Skipped)]\<rparr>)"

text \<open>
  The state when the loop has ended; Python returns its \<open>merged_count\<close> and logs the
  three counters.
\<close>

definition merge_cheat_entries :: "asm_map \<Rightarrow> asm_map \<Rightarrow> texts \<Rightarrow> merge_state" where
  "merge_cheat_entries asm_map1 asm_map2 txt =
     foldl (\<lambda>st item. merge_entry asm_map2 item st)
       \<lparr>texts_of = txt, merged_count = 0, skipped_count = 0, error_count = 0, logged = []\<rparr>
       asm_map1"

text \<open>The two map constructions of \<^verbatim>\<open>main\<close>, and the merge that follows them.\<close>

definition build_maps :: "element \<Rightarrow> element \<Rightarrow> texts \<Rightarrow> asm_map \<times> asm_map \<times> texts" where
  "build_maps tree1 tree2 txt =
     (case get_assembler_scripts tree1 txt of (asm_map1, txt1) \<Rightarrow>
      case get_assembler_scripts tree2 txt1 of (asm_map2, txt2) \<Rightarrow>
        (asm_map1, asm_map2, txt2))"

definition main_merge :: "element \<Rightarrow> element \<Rightarrow> texts \<Rightarrow> merge_state" where
  "main_merge tree1 tree2 txt =
     (case build_maps tree1 tree2 txt of (asm_map1, asm_map2, txt2) \<Rightarrow>
        merge_cheat_entries asm_map1 asm_map2 txt2)"

text \<open>
  The loop of \<^verbatim>\<open>main\<close> in \<^verbatim>\<open>merge_script.py\<close>: no counters; an element's text is passed
  on as it is, and a \<^verbatim>\<open>None\<close> makes \<^verbatim>\<open>merge_asm_scripts\<close> raise on its first line.
\<close>

definition merge_call_script :: "string option \<Rightarrow> string option \<Rightarrow> py_error + string" where
  "merge_call_script t1 t2 =
     (case (t1, t2) of
        (Some asm1, Some asm2) \<Rightarrow> merge_asm_scripts_script asm1 asm2
      | _ \<Rightarrow> Inl (OtherException ''AttributeError''))"

definition main_entry_script ::
  "asm_map \<Rightarrow> string \<times> addr \<Rightarrow> texts \<times> (string \<times> outcome) list
     \<Rightarrow> texts \<times> (string \<times> outcome) list" where
  "main_entry_script asm_map2 item st =
     (case item of (cheat_id, asm_elem1) \<Rightarrow>
      case st of (txt, printed) \<Rightarrow>
      case map_of asm_map2 cheat_id of
        Some asm_elem2 \<Rightarrow>
          (case merge_call_script (txt asm_elem1) (txt asm_elem2) of
             Inr merged_text \<Rightarrow> (txt(asm_elem1 \<mapsto> merged_text), printed @ [(cheat_id, Merged)])
           | Inl e \<Rightarrow> (txt, printed @ [(cheat_id, Failed e)]))
      | None \<Rightarrow> (txt, printed @ [(cheat_id, Skipped)]))"

definition main_loop_script ::
  "asm_map \<Rightarrow> asm_map \<Rightarrow> texts \<Rightarrow> texts \<times> (string \<times> outcome) list" where
  "main_loop_script asm_map1 asm_map2 txt =
     foldl (\<lambda>st item. main_entry_script asm_map2 item st) (txt, []) asm_map1"


section \<open>Reading the generated text\<close>

text \<open>
  The template and the token list are all that \<^verbatim>\<open>process_section\<close> returns.
  Re-substitution, as the specification words it for the round-trip law, is not code of
  the scripts: it walks the template from the left and puts the next token in place
  of each \<^verbatim>\<open>%s\<close> it meets; a \<^verbatim>\<open>%s\<close> met when the tokens are used up stays.
  \<open>count_placeholders\<close> counts the \<^verbatim>\<open>%s\<close> met on that walk.
\<close>

fun resubstitute :: "string \<Rightarrow> string list \<Rightarrow> string" where
  "resubstitute [] toks = []"
| "resubstitute (c # cs) toks =
     (if c = CHR ''%'' \<and> startswith cs ''s''
      then (case toks of
              [] \<Rightarrow> c # CHR ''s'' # resubstitute (tl cs) []
            | t # ts \<Rightarrow> t @ resubstitute (tl cs) ts)
      else c # resubstitute cs toks)"

fun count_placeholders :: "string \<Rightarrow> nat" where
  "count_placeholders [] = 0"
| "count_placeholders (c # cs) =
     (if c = CHR ''%'' \<and> startswith cs ''s''
      then Suc (count_placeholders (tl cs))
      else count_placeholders cs)"


text \<open>\<^verbatim>\<open>sub in s\<close>.\<close>

fun contains :: "string \<Rightarrow> string \<Rightarrow> bool" where
  "contains [] sub = (sub = [])"
| "contains (c # cs) sub = (startswith (c # cs) sub \<or> contains cs sub)"

text \<open>
  The merged script is Lua. Two rules of the Lua lexer and one library function decide
  what a generated fragment denotes when it runs.

  A long string opened by \<^verbatim>\<open>[==[\<close> ends at the first \<^verbatim>\<open>]==]\<close>; a line break right after the
  opening bracket is skipped; every line break sequence inside (\<^verbatim>\<open>\n\<close>, \<^verbatim>\<open>\r\<close>, \<^verbatim>\<open>\r\n\<close>,
  \<^verbatim>\<open>\n\r\<close>) is read as one \<^verbatim>\<open>\n\<close>. \<open>lua_long_string\<close> takes the source after the opening
  bracket and returns the string and the source after the closing bracket, or \<open>None\<close>
  when the string is unfinished.
\<close>

definition is_eol :: "char \<Rightarrow> bool" where
  "is_eol c = (c = CHR 0x0A \<or> c = CHR 0x0D)"

fun skip_eol :: "string \<Rightarrow> string" where
  "skip_eol [] = []"
| "skip_eol [c] = []"
| "skip_eol (c # d # cs) = (if is_eol d \<and> d \<noteq> c then cs else d # cs)"

function lua_long_body :: "string \<Rightarrow> (string \<times> string) option" where
  "lua_long_body [] = None"
| "lua_long_body (c # cs) =
     (if startswith (c # cs) '']==]'' then Some ([], drop 4 (c # cs))
      else if is_eol c
      then (case lua_long_body (skip_eol (c # cs)) of
              None \<Rightarrow> None
            | Some (v, rest) \<Rightarrow> Some (CHR 0x0A # v, rest))
      else (case lua_long_body cs of
              None \<Rightarrow> None
            | Some (v, rest) \<Rightarrow> Some (c # v, rest)))"
  by pat_completeness auto

lemma length_skip_eol: "length (skip_eol (c # cs)) \<le> length cs"
  by (cases cs) auto

termination lua_long_body
  by (relation "measure length") (auto simp: length_skip_eol le_imp_less_Suc)

definition lua_long_string :: "string \<Rightarrow> (string \<times> string) option" where
  "lua_long_string s =
     (case s of
        [] \<Rightarrow> None
      | c # cs \<Rightarrow> if is_eol c then lua_long_body (skip_eol (c # cs)) else lua_long_body (c # cs))"

text \<open>
  The value a fragment \<^verbatim>\<open>local NAME = [==[ ... ]==]\<close> binds to \<^verbatim>\<open>NAME\<close>; \<open>None\<close> when the
  fragment is not of that shape or text is left over after the closing bracket.
\<close>

definition lua_literal_value :: "string \<Rightarrow> string \<Rightarrow> string option" where
  "lua_literal_value script_var fragment =
     (let pre = ''local '' @ script_var @ '' = [==[''
      in if startswith fragment pre
         then (case lua_long_string (drop (length pre) fragment) of
                 Some (v, rest) \<Rightarrow> if rest = [] then Some v else None
               | None \<Rightarrow> None)
         else None)"

text \<open>
  \<^verbatim>\<open>string.format\<close> on string arguments, for the directives \<^verbatim>\<open>%%\<close> and \<^verbatim>\<open>%s\<close>: \<^verbatim>\<open>%%\<close> gives
  one \<^verbatim>\<open>%\<close>, \<^verbatim>\<open>%s\<close> takes the next argument and raises when there is none, arguments
  left over are ignored. Any other directive is outside this reading and gives \<open>None\<close>,
  as a raised error does.
\<close>

fun lua_format :: "string \<Rightarrow> string list \<Rightarrow> string option" where
  "lua_format [] args = Some []"
| "lua_format [c] args = (if c = CHR ''%'' then None else Some [c])"
| "lua_format (c # d # cs) args =
     (if c \<noteq> CHR ''%'' then map_option (\<lambda>r. c # r) (lua_format (d # cs) args)
      else if d = CHR ''%'' then map_option (\<lambda>r. CHR ''%'' # r) (lua_format cs args)
      else if d = CHR ''s''
      then (case args of
              [] \<Rightarrow> None
            | a # rest \<Rightarrow> map_option (\<lambda>r. a @ r) (lua_format cs rest))
      else None)"

text \<open>
  The value a fragment \<^verbatim>\<open>local NAME = string.format([==[ ... ]==], keys)\<close> binds to
  \<^verbatim>\<open>NAME\<close> when the keys \<^verbatim>\<open>PREFIX.dynamic1\<close>, \<^verbatim>\<open>PREFIX.dynamic2\<close>, ... evaluate to \<open>args\<close>.
  The source after the closing bracket has to be exactly that list of keys and the
  closing parenthesis; anything else is a fragment of another shape (a syntax error
  when the literal ended early) and gives \<open>None\<close>.
\<close>

definition lua_format_value ::
  "string \<Rightarrow> string \<Rightarrow> string \<Rightarrow> string list \<Rightarrow> string option" where
  "lua_format_value script_var addr_prefix fragment args =
     (let pre = ''local '' @ script_var @ '' = string.format([==['';
          keys = join '', '' (map (\<lambda>i. addr_prefix @ ''.dynamic'' @ str_nat i)
                                 [1..<Suc (length args)])
      in if startswith fragment pre
         then (case lua_long_string (drop (length pre) fragment) of
                 Some (fmt, rest) \<Rightarrow>
                   if rest = '', '' @ keys @ '')'' then lua_format fmt args else None
               | None \<Rightarrow> None)
         else None)"

text \<open>
  A short string literal of Lua, read from the source after its opening double quote:
  it ends at the first quote that no backslash precedes, \<^verbatim>\<open>\\\<close> denotes a backslash and
  \<^verbatim>\<open>\"\<close> a quote, and a raw line break inside is an error (unfinished string). Other
  escape sequences are outside this reading and give \<open>None\<close>, as an error does. The
  result is the string and the source after the closing quote.
\<close>

fun lua_quoted_body :: "string \<Rightarrow> (string \<times> string) option" where
  "lua_quoted_body [] = None"
| "lua_quoted_body [c] = (if c = CHR 0x22 then Some ([], []) else None)"
| "lua_quoted_body (c # d # cs) =
     (if c = CHR 0x22 then Some ([], d # cs)
      else if is_eol c then None
      else if c = CHR 0x5C
      then (if d = CHR 0x5C \<or> d = CHR 0x22
            then (case lua_quoted_body cs of
                    None \<Rightarrow> None
                  | Some (v, rest) \<Rightarrow> Some (d # v, rest))
            else None)
      else (case lua_quoted_body (d # cs) of
              None \<Rightarrow> None
            | Some (v, rest) \<Rightarrow> Some (c # v, rest)))"


section \<open>Config Table Builder: failure and escaping\<close>

text \<open>What the specification calls an escaped token: every backslash and every quote
  gets a backslash in front, every other character stands as it is.\<close>

definition escape_char :: "char \<Rightarrow> string" where
  "escape_char c =
     (if c = CHR 0x5C then [CHR 0x5C, CHR 0x5C]
      else if c = CHR 0x22 then [CHR 0x5C, CHR 0x22]
      else [c])"

definition escaped :: "string \<Rightarrow> string" where
  "escaped t = concat (map escape_char t)"

text \<open>One row of the table as the specification describes it: key \<open>j\<close> (counted from
  one) holds the escaped \<open>j\<close>-th token between quotes.\<close>

definition table_row :: "string list \<Rightarrow> string" where
  \<open>table_row toks =
     ''{\<newline>''
     @ join '',\<newline>''
         (map (\<lambda>j. ''        dynamic'' @ str_nat (Suc j) @ '' = "'' @ escaped (toks ! j) @ ''"'')
            [0..<length toks])
     @ ''\<newline>    }''\<close>

lemma replace_single_char:
  "replace s [c] new = concat (map (\<lambda>d. if d = c then new else [d]) s)"
  by (induction s) (auto simp: startswith_def)

lemma lua_safe_val_escaped: "lua_safe_val t = escaped t"
  unfolding lua_safe_val_def escaped_def replace_single_char
  by (induction t) (auto simp: escape_char_def)

lemma enumerate_index_map:
  "map (\<lambda>(i, v). f i v) (List.enumerate 1 xs) = map (\<lambda>j. f (Suc j) (xs ! j)) [0..<length xs]"
  by (rule nth_equalityI) (auto simp: nth_enumerate_eq)

lemma build_version_table_row: "build_version_table values = table_row values"
  unfolding build_version_table_def table_row_def Let_def dynamic_line_def lua_safe_val_escaped
  using enumerate_index_map[of "\<lambda>i v. ''        dynamic'' @ str_nat i @ '' = '' @ [CHR 0x22] @ escaped v @ [CHR 0x22]" "values"]
  by simp

text \<open>
  Claim C2. \<^verbatim>\<open>build_lua_config_table\<close> raises exactly when the two token lists differ
  in length, the error then is the \<^verbatim>\<open>ValueError\<close> whose message carries the name and
  both counts, and on equal lengths it returns a table text together with the count
  \<open>length tokens_v1\<close>.
\<close>

theorem build_lua_config_table_fails_iff:
  "((\<exists>err. build_lua_config_table name tokens_v1 tokens_v2 = Inl err)
       \<longleftrightarrow> length tokens_v1 \<noteq> length tokens_v2)
   \<and> (length tokens_v1 \<noteq> length tokens_v2 \<longrightarrow>
        build_lua_config_table name tokens_v1 tokens_v2 =
          Inl (ValueError (''Dynamic value count mismatch for '' @ name @ '': ''
                 @ str_nat (length tokens_v1) @ '' vs '' @ str_nat (length tokens_v2))))
   \<and> (length tokens_v1 = length tokens_v2 \<longrightarrow>
        (\<exists>table_text. build_lua_config_table name tokens_v1 tokens_v2
                        = Inr (table_text, length tokens_v1)))"
  by (simp add: build_lua_config_table_def)

theorem build_lua_config_table_fails_iff_witness:
  "length [''Game.exe+1A'', ''Game.exe+2B''] \<noteq> length [''Game.exe+3C'']
   \<and> build_lua_config_table ''config_enable'' [''Game.exe+1A'', ''Game.exe+2B''] [''Game.exe+3C'']
       = Inl (ValueError ''Dynamic value count mismatch for config_enable: 2 vs 1'')
   \<and> length [''Game.exe+1A''] = length [''Game.exe+3C'']
   \<and> (\<exists>table_text. build_lua_config_table ''config_enable'' [''Game.exe+1A''] [''Game.exe+3C'']
                      = Inr (table_text, 1))"
  using build_lua_config_table_fails_iff
          [of "''config_enable''" "[''Game.exe+1A'', ''Game.exe+2B'']" "[''Game.exe+3C'']"]
        build_lua_config_table_fails_iff
          [of "''config_enable''" "[''Game.exe+1A'']" "[''Game.exe+3C'']"]
  by (simp add: digit_char_def)

text \<open>The builder of \<^verbatim>\<open>merge_script.py\<close> fails on the same condition, with the same message.\<close>

lemma build_lua_config_table_script_fails_iff:
  "((\<exists>err. build_lua_config_table_script name v1 v2 = Inl err) \<longleftrightarrow> length v1 \<noteq> length v2)
   \<and> (length v1 = length v2 \<longrightarrow>
        (\<exists>table_text. build_lua_config_table_script name v1 v2 = Inr (table_text, length v1)))"
  by (simp add: build_lua_config_table_script_def)

text \<open>
  For token lists of equal length the emitted text is the two-row table: row 1 lists
  the tokens of version 1 and row 2 those of version 2, in order, and the value under
  key \<open>j\<close> is the \<open>j\<close>-th token with each backslash and each quote escaped.
\<close>

lemma config_table_rows_escaped:
  "length tokens_v1 = length tokens_v2 \<Longrightarrow>
     build_lua_config_table name tokens_v1 tokens_v2 =
       Inr (''local '' @ name @ '' = {\<newline>    [1] = '' @ table_row tokens_v1
              @ '',\<newline>    [2] = '' @ table_row tokens_v2 @ ''\<newline>}'',
            length tokens_v1)"
  by (simp add: build_lua_config_table_def config_table_text_def build_version_table_row)


lemma config_table_rows_escaped_example:
  \<open>length [''"My Game.exe"+1A'', ''Game.exe+2B'']
     = length [CHR ''a'' # CHR 0x5C # ''b.exe+3C:'', ''Game.exe+4D'']
   \<and> build_lua_config_table ''config_enable'' [''"My Game.exe"+1A'', ''Game.exe+2B'']
         [CHR ''a'' # CHR 0x5C # ''b.exe+3C:'', ''Game.exe+4D'']
       = Inr (''local config_enable = {\<newline>    [1] = {\<newline>        dynamic1 = "''
                @ [CHR 0x5C] @ ''"My Game.exe'' @ [CHR 0x5C]
                @ ''"+1A",\<newline>        dynamic2 = "Game.exe+2B"\<newline>    },\<newline>    [2] = {\<newline>        dynamic1 = "a''
                @ [CHR 0x5C, CHR 0x5C]
                @ ''b.exe+3C:",\<newline>        dynamic2 = "Game.exe+4D"\<newline>    }\<newline>}'', 2)\<close>
  using config_table_rows_escaped
          [of \<open>[''"My Game.exe"+1A'', ''Game.exe+2B'']\<close>
              \<open>[CHR ''a'' # CHR 0x5C # ''b.exe+3C:'', ''Game.exe+4D'']\<close> "''config_enable''"]
  by (simp add: table_row_def escaped_def escape_char_def digit_char_def)

text \<open>
  A token without a line break, escaped and put between quotes, reads back as the
  token: there the escaping is enough.
\<close>

lemma lua_quoted_body_quote: "lua_quoted_body (CHR 0x22 # rest) = Some ([], rest)"
  by (cases rest) auto

lemma lua_quoted_body_plain:
  "c \<noteq> CHR 0x22 \<Longrightarrow> c \<noteq> CHR 0x5C \<Longrightarrow> \<not> is_eol c \<Longrightarrow> x \<noteq> [] \<Longrightarrow>
     lua_quoted_body (c # x) =
       (case lua_quoted_body x of None \<Rightarrow> None | Some (v, rest) \<Rightarrow> Some (c # v, rest))"
  by (cases x) auto

lemma lua_quoted_body_escape:
  "d = CHR 0x5C \<or> d = CHR 0x22 \<Longrightarrow>
     lua_quoted_body (CHR 0x5C # d # x) =
       (case lua_quoted_body x of None \<Rightarrow> None | Some (v, rest) \<Rightarrow> Some (d # v, rest))"
  by (auto simp: is_eol_def)

lemma lua_quoted_body_escaped:
  "\<forall>c \<in> set t. \<not> is_eol c \<Longrightarrow>
     lua_quoted_body (escaped t @ CHR 0x22 # rest) = Some (t, rest)"
proof (induction t)
  case Nil
  show ?case by (simp add: escaped_def lua_quoted_body_quote)
next
  case (Cons c t)
  then have ih: "lua_quoted_body (escaped t @ CHR 0x22 # rest) = Some (t, rest)"
    and ne: "\<not> is_eol c"
    by simp_all
  have ne': "escaped t @ CHR 0x22 # rest \<noteq> []" by simp
  have e: "escaped (c # t) = escape_char c @ escaped t" by (simp add: escaped_def)
  show ?case
  proof (cases "c = CHR 0x5C \<or> c = CHR 0x22")
    case True
    then have "escape_char c = [CHR 0x5C, c]" by (auto simp: escape_char_def)
    with True ih show ?thesis
      unfolding e using lua_quoted_body_escape[of c "escaped t @ CHR 0x22 # rest"] by simp
  next
    case False
    then have "escape_char c = [c]" by (auto simp: escape_char_def)
    with False ne ih show ?thesis
      unfolding e using lua_quoted_body_plain[OF _ _ ne ne', of ] by simp
  qed
qed

text \<open>
  Claim C9. Backslash and quote are escaped, but that does not make every token safe
  inside the quotes. The quoted-name class \<^verbatim>\<open>[^"]+\<close> of the pattern takes a line break,
  so a quoted module name that runs over a line end is one token; the builder writes
  its line break raw between the quotes, and the literal does not read as a string (the
  same name on one line does).
\<close>

theorem config_table_line_break_token:
  \<open>process_section ''jmp "My\<newline>Game.exe"+1A'' DYN_PATTERN
     = (''jmp %s'', [''"My\<newline>Game.exe"+1A''])
   \<and> build_version_table [''"My\<newline>Game.exe"+1A'']
     = ''{\<newline>        dynamic1 = "'' @ [CHR 0x5C] @ ''"My\<newline>Game.exe'' @ [CHR 0x5C] @ ''"+1A"\<newline>    }''
   \<and> lua_quoted_body (lua_safe_val ''"My\<newline>Game.exe"+1A'' @ ''"'') = None
   \<and> lua_quoted_body (lua_safe_val ''"My Game.exe"+1A'' @ ''"'') = Some (''"My Game.exe"+1A'', [])\<close>
  by code_simp


text \<open>
  The builder of \<^verbatim>\<open>merge_script.py\<close> escapes quotes and leaves a backslash alone. Its
  own pattern admits no token with a backslash, so the difference shows only when the
  builder is called on other lists.
\<close>

lemma build_version_table_script_backslash:
  \<open>build_version_table_script [[CHR ''a'', CHR 0x5C, CHR ''b'']]
     = ''{\<newline>        dynamic1 = "a'' @ [CHR 0x5C] @ ''b"\<newline>    }''\<close>
  by (simp add: build_version_table_script_def dynamic_line_def enumerate_eq_zip
        startswith_def digit_char_def)



section \<open>Section Splitter: the split point\<close>

text \<open>
  An occurrence of the deactivation header in any letter case, as the specification
  words it: nine characters that equal \<^verbatim>\<open>[DISABLE]\<close> once ASCII letters are lowered.
  \<open>header_occurs s\<close> holds when some position of \<open>s\<close> starts such an occurrence.
\<close>

definition is_disable_header :: "string \<Rightarrow> bool" where
  "is_disable_header h = (map lower_ascii h = map lower_ascii ''[DISABLE]'')"

fun header_occurs :: "string \<Rightarrow> bool" where
  "header_occurs [] = False"
| "header_occurs (c # cs) = (is_disable_header (take 9 (c # cs)) \<or> header_occurs cs)"

lemma match_lens_classes:
  "ps \<noteq> [] \<Longrightarrow>
     match_lens (cats (map Class ps)) s =
       (if list_all2 (\<lambda>p c. p c) ps (take (length ps) s) then [length ps] else [])"
proof (induction ps arbitrary: s)
  case Nil
  then show ?case by simp
next
  case (Cons p ps)
  show ?case
  proof (cases ps)
    case Nil
    then show ?thesis by (cases s) auto
  next
    case (Cons q qs)
    then have ne: "ps \<noteq> []" by simp
    have cats: "cats (map Class (p # ps)) = Cat (Class p) (cats (map Class ps))"
      using Cons by simp
    show ?thesis
      unfolding cats using Cons.IH[OF ne] 
      by (cases s) (auto simp: list_all2_Cons1)
  qed
qed

lemma lower_ascii_fix:
  "of_char c \<notin> {65..90::nat} \<Longrightarrow> of_char c \<notin> {97..122::nat} \<Longrightarrow> lower_ascii d = c \<longleftrightarrow> d = c"
proof -
  assume c: "of_char c \<notin> {65..90::nat}" and c': "of_char c \<notin> {97..122::nat}"
  show ?thesis
  proof (cases "65 \<le> (of_char d :: nat) \<and> (of_char d :: nat) \<le> 90")
    case True
    then have "lower_ascii d = char_of ((of_char d :: nat) + 32)"
      by (simp add: lower_ascii_def Let_def)
    then have "(of_char (lower_ascii d) :: nat) = of_char d + 32"
      using True by (simp add: of_char_of)
    with True c c' show ?thesis by auto
  next
    case False
    then show ?thesis using c by (auto simp: lower_ascii_def Let_def)
  qed
qed

lemma lower_ascii_brackets:
  "lower_ascii CHR ''['' = CHR ''[''" "lower_ascii CHR '']'' = CHR '']''"
  by (simp_all add: lower_ascii_def)

lemma DISABLE_PATTERN_classes:
  "DISABLE_PATTERN = cats (map Class (map (\<lambda>c d. lower_ascii d = lower_ascii c) ''[DISABLE]''))"
  using lower_ascii_fix[of "CHR ''[''"] lower_ascii_fix[of "CHR '']''"]
  by (simp add: DISABLE_PATTERN_def lit_def lit_ci_def lower_ascii_brackets)

lemma match_lens_DISABLE:
  "match_lens DISABLE_PATTERN s = (if is_disable_header (take 9 s) then [9] else [])"
proof -
  define ps where "ps = map (\<lambda>c d. lower_ascii d = lower_ascii c) ''[DISABLE]''"
  have len: "length ps = 9" and ne: "ps \<noteq> []"
    by (simp_all add: ps_def)
  have "list_all2 (\<lambda>p c. p c) ps t \<longleftrightarrow> is_disable_header t" for t
    unfolding ps_def is_disable_header_def
    by (auto simp: list_all2_Cons1 map_eq_Cons_conv)
  with match_lens_classes[OF ne, of s] len show ?thesis
    unfolding DISABLE_PATTERN_classes ps_def[symmetric] by simp
qed

lemma search_start:
  "search r s start False =
     (case match_lens r s of
        n # _ \<Rightarrow> Some (start, start + n)
      | [] \<Rightarrow> (case s of [] \<Rightarrow> None | c # cs \<Rightarrow> search r cs (Suc start) False))"
  by (subst search.simps) (simp add: candidates_def)

lemma search_DISABLE_none:
  "\<not> header_occurs s \<Longrightarrow> search DISABLE_PATTERN s start False = None"
proof (induction s arbitrary: start)
  case Nil
  then show ?case by (subst search_start) (simp add: match_lens_DISABLE is_disable_header_def)
next
  case (Cons c cs)
  then show ?case by (subst search_start) (simp add: match_lens_DISABLE)
qed

lemma is_disable_header_length: "is_disable_header h \<Longrightarrow> length h = 9"
  unfolding is_disable_header_def by (drule arg_cong[where f = length]) simp

lemma search_DISABLE_first:
  "is_disable_header h \<Longrightarrow> \<not> header_occurs (pre @ butlast h) \<Longrightarrow>
     search DISABLE_PATTERN (pre @ h @ post) start False
       = Some (start + length pre, start + length pre + 9)"
proof (induction pre arbitrary: start)
  case Nil
  then have "take 9 (h @ post) = h"
    using is_disable_header_length by simp
  with Nil show ?case
    by (subst search_start) (simp add: match_lens_DISABLE)
next
  case (Cons c pre)
  have len: "length h = 9" using Cons.prems(1) by (rule is_disable_header_length)
  then obtain b l where h: "h = b @ [l]" and b: "length b = 8"
    by (cases h rule: rev_cases) auto
  from Cons.prems(2) h have no: "\<not> is_disable_header (take 9 (c # pre @ b))"
    and rest: "\<not> header_occurs (pre @ butlast h)"
    by simp_all
  have "take 9 ((c # pre) @ h @ post) = take 9 ((c # pre @ b) @ (l # post))"
    using h by simp
  also have "\<dots> = take 9 (c # pre @ b)"
    using b by simp
  finally have "match_lens DISABLE_PATTERN ((c # pre) @ h @ post) = []"
    using no by (simp add: match_lens_DISABLE)
  then show ?case
    using Cons.IH[OF Cons.prems(1) rest, of "Suc start"]
    by (subst search_start) simp
qed


text \<open>
  Claim C6. Let \<open>rest\<close> be the script text after leading whitespace and a leading
  \<^verbatim>\<open>[ENABLE]\<close> have been consumed. When no deactivation header occurs in \<open>rest\<close>, the
  activation body is \<open>rest\<close> trimmed and the deactivation body is empty. When
  \<open>rest = pre @ h @ post\<close> with \<open>h\<close> the first occurrence of the header (none starts
  before it), the activation body is \<open>pre\<close> trimmed and the deactivation body is all of
  \<open>post\<close> trimmed, later occurrences included. The function is total: no input fails.
\<close>

theorem split_asm_sections_first_header:
  "(\<not> header_occurs (consume_enable_header text) \<longrightarrow>
      split_asm_sections text = (strip (consume_enable_header text), []))
   \<and> (\<forall>pre h post.
        consume_enable_header text = pre @ h @ post \<and> is_disable_header h
          \<and> \<not> header_occurs (pre @ butlast h)
        \<longrightarrow> split_asm_sections text = (strip pre, strip post))"
proof (intro conjI allI impI)
  assume "\<not> header_occurs (consume_enable_header text)"
  then show "split_asm_sections text = (strip (consume_enable_header text), [])"
    by (simp add: split_asm_sections_def re_split1_def search_DISABLE_none)
next
  fix pre h post
  assume a: "consume_enable_header text = pre @ h @ post \<and> is_disable_header h
          \<and> \<not> header_occurs (pre @ butlast h)"
  then have len: "length h = 9" using is_disable_header_length by simp
  from a have "search DISABLE_PATTERN (consume_enable_header text) 0 False
                 = Some (length pre, length pre + 9)"
    using search_DISABLE_first[of h pre post 0] by simp
  then show "split_asm_sections text = (strip pre, strip post)"
    using a len by (simp add: split_asm_sections_def re_split1_def slice_def)
qed

theorem split_asm_sections_first_header_witness:
  "consume_enable_header ''  [ENABLE]\<newline> mov eax,1 \<newline>[disable]\<newline> mov eax,0 \<newline>[DISABLE] nop ''
      = ''mov eax,1 \<newline>'' @ ''[disable]'' @ ''\<newline> mov eax,0 \<newline>[DISABLE] nop ''
   \<and> is_disable_header ''[disable]''
   \<and> \<not> header_occurs (''mov eax,1 \<newline>'' @ butlast ''[disable]'')
   \<and> split_asm_sections ''  [ENABLE]\<newline> mov eax,1 \<newline>[disable]\<newline> mov eax,0 \<newline>[DISABLE] nop ''
      = (''mov eax,1'', ''mov eax,0 \<newline>[DISABLE] nop'')
   \<and> \<not> header_occurs (consume_enable_header ''mov eax,1'')
   \<and> split_asm_sections ''mov eax,1'' = (''mov eax,1'', [])"
proof -
  let ?t = "''  [ENABLE]\<newline> mov eax,1 \<newline>[disable]\<newline> mov eax,0 \<newline>[DISABLE] nop ''"
  have c: "consume_enable_header ?t
      = ''mov eax,1 \<newline>'' @ ''[disable]'' @ ''\<newline> mov eax,0 \<newline>[DISABLE] nop ''"
    by code_simp
  have h: "is_disable_header ''[disable]''"
    by code_simp
  have n: "\<not> header_occurs (''mov eax,1 \<newline>'' @ butlast ''[disable]'')"
    by code_simp
  have c2: "consume_enable_header ''mov eax,1'' = ''mov eax,1''"
    by code_simp
  have n2: "\<not> header_occurs (consume_enable_header ''mov eax,1'')"
    by code_simp
  have s1: "strip ''mov eax,1 \<newline>'' = ''mov eax,1''"
    and s2: "strip ''\<newline> mov eax,0 \<newline>[DISABLE] nop '' = ''mov eax,0 \<newline>[DISABLE] nop''"
    and s3: "strip ''mov eax,1'' = ''mov eax,1''"
    by code_simp+
  from split_asm_sections_first_header[of ?t] c h n
  have "split_asm_sections ?t = (''mov eax,1'', ''mov eax,0 \<newline>[DISABLE] nop'')"
    unfolding s1[symmetric] s2[symmetric] by blast
  moreover from split_asm_sections_first_header[of "''mov eax,1''"] n2
  have "split_asm_sections ''mov eax,1'' = (''mov eax,1'', [])"
    unfolding c2 s3 by simp
  ultimately show ?thesis using c h n n2 by blast
qed

text \<open>
  Claim C5. The deactivation header is found in any letter case (the theorem above
  takes any \<open>h\<close> with \<open>is_disable_header h\<close>), but the activation header is compared by
  \<^verbatim>\<open>startswith("[ENABLE]")\<close>: a lower-case \<^verbatim>\<open>[enable]\<close> is not consumed and stays in the
  activation body, while the same script with \<^verbatim>\<open>[ENABLE]\<close> loses its header.
\<close>

theorem split_asm_sections_enable_case:
  "split_asm_sections ''[enable]\<newline>nop\<newline>[disable]\<newline>ret'' = (''[enable]\<newline>nop'', ''ret'')
   \<and> split_asm_sections ''[ENABLE]\<newline>nop\<newline>[disable]\<newline>ret'' = (''nop'', ''ret'')"
  by code_simp

text \<open>
  The splitter of \<^verbatim>\<open>merge_script.py\<close> uses \<^verbatim>\<open>text.split("[DISABLE]")\<close>: it matches the
  upper-case header only and keeps the part between the first two occurrences.
\<close>

lemma split_asm_sections_script_examples:
  "split_asm_sections_script ''a [DISABLE] b [DISABLE] c'' = (''a'', ''b'')
   \<and> split_asm_sections ''a [DISABLE] b [DISABLE] c'' = (''a'', ''b [DISABLE] c'')
   \<and> split_asm_sections_script ''a [disable] b'' = (''a [disable] b'', [])
   \<and> split_asm_sections_script ''[enable] a'' = (''[enable] a'', [])"
  by code_simp




section \<open>Script Assembler: what the fragments denote\<close>

lemma startswith_append_self: "startswith (p @ s) p"
  by (simp add: startswith_def)

lemma startswith_Cons: "startswith (c # cs) (d # ds) \<longleftrightarrow> c = d \<and> startswith cs ds"
  by (auto simp: startswith_def)

lemma startswith_Nil: "startswith s []" "startswith [] (d # ds) = False"
  by (simp_all add: startswith_def)

lemma closing_not_across_newline:
  assumes "startswith (s @ CHR 0x0A # r) '']==]''"
  shows "startswith s '']==]''"
proof -
  have L: "length '']==]'' = 4" by simp
  from assms have eq: "take 4 (s @ CHR 0x0A # r) = '']==]''"
    unfolding startswith_def L .
  show ?thesis
  proof (cases "4 \<le> length s")
    case True
    with eq show ?thesis unfolding startswith_def L by simp
  next
    case False
    then have "take 4 (s @ CHR 0x0A # r) ! length s = CHR 0x0A"
      by (simp add: nth_append)
    with eq have "'']==]'' ! length s = CHR 0x0A" by simp
    moreover from False have "length s = 0 \<or> length s = 1 \<or> length s = 2 \<or> length s = 3"
      by arith
    ultimately show ?thesis by auto
  qed
qed

lemma lua_long_body_template:
  "\<not> contains t '']==]'' \<Longrightarrow> CHR 0x0D \<notin> set t \<Longrightarrow>
     lua_long_body (t @ ''\<newline>]==]'') = Some (t @ ''\<newline>'', [])"
proof (induction t)
  case Nil
  show ?case by (simp add: startswith_Cons startswith_Nil is_eol_def)
next
  case (Cons c t)
  from Cons.prems have nc: "\<not> startswith (c # t) '']==]''" and nt: "\<not> contains t '']==]''"
    and cr: "c \<noteq> CHR 0x0D" "CHR 0x0D \<notin> set t"
    by auto
  have ns: "\<not> startswith ((c # t) @ ''\<newline>]==]'') '']==]''"
    using nc closing_not_across_newline[of "c # t" "'']==]''"] by auto
  have skip: "is_eol c \<Longrightarrow> skip_eol ((c # t) @ ''\<newline>]==]'') = t @ ''\<newline>]==]''"
    using cr by (cases t) (auto simp: is_eol_def)
  have eol: "is_eol c \<Longrightarrow> c = CHR 0x0A"
    using cr by (simp add: is_eol_def)
  from ns have ns': "\<not> startswith (c # t @ ''\<newline>]==]'') '']==]''" by simp
  show ?case
  proof (cases "is_eol c")
    case True
    with skip have "skip_eol (c # t @ ''\<newline>]==]'') = t @ ''\<newline>]==]''" by simp
    with True ns' Cons.IH[OF nt cr(2)] eol show ?thesis
      by (simp del: skip_eol.simps)
  next
    case False
    with ns' Cons.IH[OF nt cr(2)] show ?thesis by simp
  qed
qed

text \<open>
  Claim C7, as the code has it. With a count of 0 the fragment is the script variable
  bound to a long-bracket literal whose body is the template, unmodified, between a
  line break after \<^verbatim>\<open>[==[\<close> and a line break before \<^verbatim>\<open>]==]\<close>: no escaping and no call of
  \<^verbatim>\<open>string.format\<close>. For a template that holds neither \<^verbatim>\<open>]==]\<close> nor a carriage return,
  the literal denotes the template followed by one line break, the one written before
  the closing bracket; nothing is substituted.
\<close>

theorem fast_path_literal:
  "build_script_part template 0 script_var addr_prefix
     = ''local '' @ script_var @ '' = [==[\<newline>'' @ template @ ''\<newline>]==]''
   \<and> (\<not> contains template '']==]'' \<and> CHR 0x0D \<notin> set template \<longrightarrow>
        lua_literal_value script_var (build_script_part template 0 script_var addr_prefix)
          = Some (template @ ''\<newline>''))"
proof (intro conjI impI)
  show frag: "build_script_part template 0 script_var addr_prefix
     = ''local '' @ script_var @ '' = [==[\<newline>'' @ template @ ''\<newline>]==]''"
    by (simp add: build_script_part_def)
  assume a: "\<not> contains template '']==]'' \<and> CHR 0x0D \<notin> set template"
  let ?pre = "''local '' @ script_var @ '' = [==[''"
  have f2: "build_script_part template 0 script_var addr_prefix
              = ?pre @ CHR 0x0A # template @ ''\<newline>]==]''"
    unfolding frag by simp
  have sk: "skip_eol (CHR 0x0A # template @ ''\<newline>]==]'') = template @ ''\<newline>]==]''"
    using a by (cases template) (auto simp: is_eol_def)
  have "lua_long_string (CHR 0x0A # template @ ''\<newline>]==]'') = Some (template @ ''\<newline>'', [])"
    using a sk lua_long_body_template[of template]
    by (simp add: lua_long_string_def is_eol_def del: skip_eol.simps)
  then show "lua_literal_value script_var (build_script_part template 0 script_var addr_prefix)
          = Some (template @ ''\<newline>'')"
    unfolding f2 lua_literal_value_def Let_def
    using startswith_append_self[of ?pre] by (simp del: append_assoc)
qed


theorem fast_path_literal_witness:
  "\<not> contains ''mov eax,1\<newline>ret'' '']==]'' \<and> CHR 0x0D \<notin> set ''mov eax,1\<newline>ret''
   \<and> build_script_part ''mov eax,1\<newline>ret'' 0 ''disableScript'' ''addrD''
       = ''local disableScript = [==[\<newline>mov eax,1\<newline>ret\<newline>]==]''
   \<and> lua_literal_value ''disableScript''
         (build_script_part ''mov eax,1\<newline>ret'' 0 ''disableScript'' ''addrD'')
       = Some ''mov eax,1\<newline>ret\<newline>''"
proof -
  have a: "\<not> contains ''mov eax,1\<newline>ret'' '']==]''" by code_simp
  have b: "CHR 0x0D \<notin> set ''mov eax,1\<newline>ret''" by simp
  from fast_path_literal[of "''mov eax,1\<newline>ret''" "''disableScript''" "''addrD''"] a b
  have f: "build_script_part ''mov eax,1\<newline>ret'' 0 ''disableScript'' ''addrD''
       = ''local '' @ ''disableScript'' @ '' = [==[\<newline>'' @ ''mov eax,1\<newline>ret'' @ ''\<newline>]==]''"
    and v: "lua_literal_value ''disableScript''
         (build_script_part ''mov eax,1\<newline>ret'' 0 ''disableScript'' ''addrD'')
       = Some (''mov eax,1\<newline>ret'' @ ''\<newline>'')"
    by blast+
  from f have f': "build_script_part ''mov eax,1\<newline>ret'' 0 ''disableScript'' ''addrD''
       = ''local disableScript = [==[\<newline>mov eax,1\<newline>ret\<newline>]==]''"
    by simp
  from v have v': "lua_literal_value ''disableScript''
         (build_script_part ''mov eax,1\<newline>ret'' 0 ''disableScript'' ''addrD'')
       = Some ''mov eax,1\<newline>ret\<newline>''"
    by simp
  from a b f' v' show ?thesis by blast
qed

text \<open>
  The claim as stated, that the fragment denotes exactly the template, fails already
  for \<^verbatim>\<open>nop\<close> (the value ends with a line break) and for a template that holds \<^verbatim>\<open>]==]\<close>
  (the literal ends early and the fragment is no longer one statement).
\<close>

theorem fast_path_value_counterexample:
  "lua_literal_value ''enableScript'' (build_script_part ''nop'' 0 ''enableScript'' ''addrE'')
     \<noteq> Some ''nop''
   \<and> lua_literal_value ''enableScript'' (build_script_part ''db ]==]'' 0 ''enableScript'' ''addrE'')
     \<noteq> Some ''db ]==]''"
  by code_simp

lemma fast_path_values:
  "lua_literal_value ''enableScript'' (build_script_part ''nop'' 0 ''enableScript'' ''addrE'')
     = Some ''nop\<newline>''
   \<and> lua_literal_value ''enableScript'' (build_script_part ''db ]==]'' 0 ''enableScript'' ''addrE'')
     = None
   \<and> lua_literal_value ''enableScript''
        (script_part_script ''nop'' 0 ''enableScript'' ''addrE'') = Some ''nop\<newline>''"
  by code_simp

text \<open>
  Claim C8. \<^verbatim>\<open>build_script_part\<close> doubles every \<^verbatim>\<open>%\<close> that is not part of a \<^verbatim>\<open>%s\<close>, but a
  \<^verbatim>\<open>%s\<close> that stood in the source text is the same two characters as a placeholder and
  comes through unescaped. For a section with one token and one literal \<^verbatim>\<open>%s\<close> the
  format string has two substitution points and one argument, so \<^verbatim>\<open>string.format\<close>
  raises; given a second argument, the literal \<^verbatim>\<open>%s\<close> would be filled like a placeholder.
\<close>

theorem preexisting_placeholder_survives:
  "process_section ''// %s\<newline>mov eax,[Game.exe+1A]'' DYN_PATTERN
     = (''// %s\<newline>mov eax,[%s]'', [''Game.exe+1A''])
   \<and> build_script_part ''// %s\<newline>mov eax,[%s]'' 1 ''enableScript'' ''addrE''
     = ''local enableScript = string.format([==[\<newline>// %s\<newline>mov eax,[%s]\<newline>]==], addrE.dynamic1)''
   \<and> lua_format_value ''enableScript'' ''addrE''
        (build_script_part ''// %s\<newline>mov eax,[%s]'' 1 ''enableScript'' ''addrE'')
        [''Game.exe+1A''] = None
   \<and> lua_format ''// %s\<newline>mov eax,[%s]\<newline>'' [''Game.exe+1A'', ''Game.exe+1A'']
     = Some ''// Game.exe+1A\<newline>mov eax,[Game.exe+1A]\<newline>''"
  by code_simp

text \<open>
  Where nothing of the source text looks like a directive the fragment works: the
  placeholder takes the token, a doubled \<^verbatim>\<open>%\<close> reads as one. A template that holds \<^verbatim>\<open>]==]\<close>
  ends the literal early, and the fragment is no statement any more.
\<close>

lemma format_fragment_examples:
  "lua_format_value ''enableScript'' ''addrE''
     (build_script_part ''mov eax,[%s] ; 100%'' 1 ''enableScript'' ''addrE'') [''Game.exe+1A'']
     = Some ''mov eax,[Game.exe+1A] ; 100%\<newline>''
   \<and> lua_format_value ''enableScript'' ''addrE''
     (build_script_part '']==]'' 1 ''enableScript'' ''addrE'') [''Game.exe+1A''] = None"
  by code_simp

text \<open>\<^verbatim>\<open>merge_script.py\<close> passes the template to \<^verbatim>\<open>string.format\<close> with no escaping at all.\<close>

lemma script_part_script_no_escaping:
  "script_part_script ''jmp %s ; 100%'' 1 ''enableScript'' ''addrE''
     = ''local enableScript = string.format([==[\<newline>jmp %s ; 100%\<newline>]==], addrE.dynamic1)''
   \<and> build_script_part ''jmp %s ; 100%'' 1 ''enableScript'' ''addrE''
     = ''local enableScript = string.format([==[\<newline>jmp %s ; 100%%\<newline>]==], addrE.dynamic1)''"
  by code_simp




section \<open>Dynamic-Token Extractor: the round trip\<close>

text \<open>
  The template and the tokens as functions of the spans that \<^verbatim>\<open>finditer\<close> yields, and
  what orders the spans: each starts at or after the end of the one before and ends
  inside the text.
\<close>

fun template_from :: "string \<Rightarrow> (nat \<times> nat) list \<Rightarrow> nat \<Rightarrow> string" where
  "template_from text [] last_index = drop last_index text"
| "template_from text ((s, e) # ms) last_index =
     slice text last_index s @ ''%s'' @ template_from text ms e"

fun ordered_spans :: "nat \<Rightarrow> (nat \<times> nat) list \<Rightarrow> nat \<Rightarrow> bool" where
  "ordered_spans last_index [] n = True"
| "ordered_spans last_index ((s, e) # ms) n =
     (last_index \<le> s \<and> s \<le> e \<and> e \<le> n \<and> ordered_spans e ms n)"

lemma process_loop_template:
  "process_loop text ms result dyn_list last_index = (result', dyn_list', last_index') \<Longrightarrow>
     concat (result' @ [drop last_index' text]) = concat result @ template_from text ms last_index
     \<and> dyn_list' = dyn_list @ map (\<lambda>(s, e). slice text s e) ms"
proof (induction ms arbitrary: result dyn_list last_index)
  case Nil
  then show ?case by simp
next
  case (Cons m ms)
  obtain s e where m: "m = (s, e)" by (cases m)
  from Cons.prems m
  have "process_loop text ms (result @ [slice text last_index s, ''%s''])
          (dyn_list @ [slice text s e]) e = (result', dyn_list', last_index')"
    by simp
  from Cons.IH[OF this] m show ?case by simp
qed

lemma process_section_template:
  "process_section text pattern =
     (template_from text (finditer pattern text) 0,
      map (\<lambda>(s, e). slice text s e) (finditer pattern text))"
proof -
  obtain r d l where p: "process_loop text (finditer pattern text) [] [] 0 = (r, d, l)"
    by (cases "process_loop text (finditer pattern text) [] [] 0") auto
  from process_loop_template[OF p] p show ?thesis
    by (simp add: process_section_def)
qed

lemma finditer_from_ordered:
  "ordered_spans pos (finditer_from r t pos adv) (length t)"
proof (induction r t pos adv rule: finditer_from.induct)
  case (1 r t pos must_advance)
  show ?case
  proof (cases "length t < pos")
    case True
    then show ?thesis by (subst finditer_from.simps) simp
  next
    case False
    show ?thesis
    proof (cases "search r (drop pos t) pos must_advance")
      case None
      with False show ?thesis by (subst finditer_from.simps) simp
    next
      case (Some se)
      obtain s e where se: "se = (s, e)" by (cases se)
      from search_bounds[of r "drop pos t" pos must_advance s e] Some se False
      have b: "pos \<le> s" "s \<le> e" "e \<le> length t" by auto
      from "1.IH"[OF False Some se[symmetric]]
      have "ordered_spans e (finditer_from r t e (e = s)) (length t)" .
      with b False Some se show ?thesis
        by (subst finditer_from.simps) simp
    qed
  qed
qed

lemma startswith_s_append:
  "startswith (cs @ CHR ''%'' # r) ''s'' \<longleftrightarrow> startswith cs ''s''"
  by (cases cs) (auto simp: startswith_def)

lemma startswith_sD: "startswith cs ''s'' \<Longrightarrow> cs = CHR ''s'' # tl cs"
  by (cases cs) (auto simp: startswith_def)

lemma tl_append_s: "startswith cs ''s'' \<Longrightarrow> tl (cs @ r) = tl cs @ r"
  by (cases cs) (auto simp: startswith_def)

lemma count_placeholders_append:
  "count_placeholders (g @ CHR ''%'' # CHR ''s'' # r)
     = count_placeholders g + Suc (count_placeholders r)"
proof (induction g rule: count_placeholders.induct)
  case 1
  show ?case by (simp add: startswith_def)
next
  case (2 c cs)
  show ?case
  proof (cases "c = CHR ''%'' \<and> startswith cs ''s''")
    case True
    then have "count_placeholders ((c # cs) @ CHR ''%'' # CHR ''s'' # r)
                 = Suc (count_placeholders (tl cs @ CHR ''%'' # CHR ''s'' # r))"
      using startswith_s_append[of cs "CHR ''s'' # r"]
        tl_append_s[of cs "CHR ''%'' # CHR ''s'' # r"] by simp
    also have "\<dots> = Suc (count_placeholders (tl cs) + Suc (count_placeholders r))"
      using "2.IH"(1)[OF True] by simp
    also have "\<dots> = count_placeholders (c # cs) + Suc (count_placeholders r)"
      using True by simp
    finally show ?thesis .
  next
    case False
    then have "count_placeholders ((c # cs) @ CHR ''%'' # CHR ''s'' # r)
                 = count_placeholders (cs @ CHR ''%'' # CHR ''s'' # r)"
      using startswith_s_append[of cs "CHR ''s'' # r"] by auto
    also have "\<dots> = count_placeholders cs + Suc (count_placeholders r)"
      using "2.IH"(2)[OF False] .
    also have "\<dots> = count_placeholders (c # cs) + Suc (count_placeholders r)"
      using False by auto
    finally show ?thesis .
  qed
qed

lemma resubstitute_no_tokens: "resubstitute t [] = t"
proof (induction t rule: count_placeholders.induct)
  case 1
  show ?case by simp
next
  case (2 c cs)
  show ?case
  proof (cases "c = CHR ''%'' \<and> startswith cs ''s''")
    case True
    then have cs: "CHR ''s'' # tl cs = cs" using startswith_sD[of cs] by simp
    from True have "resubstitute (c # cs) [] = c # CHR ''s'' # resubstitute (tl cs) []"
      by simp
    with "2.IH"(1)[OF True] cs show ?thesis by simp
  next
    case False
    then have "resubstitute (c # cs) [] = c # resubstitute cs []"
      by auto
    with "2.IH"(2)[OF False] show ?thesis by simp
  qed
qed

lemma resubstitute_gap:
  "count_placeholders g = 0 \<Longrightarrow>
     resubstitute (g @ CHR ''%'' # CHR ''s'' # r) (t # ts) = g @ t @ resubstitute r ts"
proof (induction g rule: count_placeholders.induct)
  case 1
  show ?case by (simp add: startswith_def)
next
  case (2 c cs)
  from "2.prems" have no: "\<not> (c = CHR ''%'' \<and> startswith cs ''s'')"
    by (auto split: if_splits)
  then have no': "\<not> (c = CHR ''%'' \<and> startswith (cs @ CHR ''%'' # CHR ''s'' # r) ''s'')"
    using startswith_s_append[of cs "CHR ''s'' # r"] by simp
  from "2.prems" no have "count_placeholders cs = 0" by auto
  with "2.IH"(2)[OF no]
  have "resubstitute (cs @ CHR ''%'' # CHR ''s'' # r) (t # ts) = cs @ t @ resubstitute r ts"
    by simp
  moreover have "resubstitute ((c # cs) @ CHR ''%'' # CHR ''s'' # r) (t # ts)
                   = c # resubstitute (cs @ CHR ''%'' # CHR ''s'' # r) (t # ts)"
    using no' by auto
  ultimately show ?case by simp
qed

lemma count_placeholders_template:
  "length ms \<le> count_placeholders (template_from text ms last_index)"
  by (induction ms arbitrary: last_index) (auto simp: count_placeholders_append trans_le_add2)

lemma slice_drop: "a \<le> b \<Longrightarrow> slice xs a b @ drop b xs = drop a xs"
proof -
  assume "a \<le> b"
  then have "drop b xs = drop (b - a) (drop a xs)" by simp
  then show ?thesis
    unfolding slice_def by (metis append_take_drop_id)
qed

lemma template_round_trip:
  "ordered_spans last_index ms (length text) \<Longrightarrow>
   count_placeholders (template_from text ms last_index) = length ms \<Longrightarrow>
   resubstitute (template_from text ms last_index) (map (\<lambda>(s, e). slice text s e) ms)
     = drop last_index text"
proof (induction ms arbitrary: last_index)
  case Nil
  show ?case by (simp add: resubstitute_no_tokens)
next
  case (Cons m ms)
  obtain s e where m: "m = (s, e)" by (cases m)
  from Cons.prems(1) m have ord: "last_index \<le> s" "s \<le> e" "e \<le> length text"
    and rest: "ordered_spans e ms (length text)"
    by simp_all
  let ?g = "slice text last_index s"
  from Cons.prems(2) m
  have "count_placeholders ?g + Suc (count_placeholders (template_from text ms e)) = Suc (length ms)"
    by (simp add: count_placeholders_append)
  with count_placeholders_template[of ms "text" e]
  have g0: "count_placeholders ?g = 0"
    and c: "count_placeholders (template_from text ms e) = length ms"
    by arith+
  from Cons.IH[OF rest c]
  have ih: "resubstitute (template_from text ms e) (map (\<lambda>(s, e). slice text s e) ms)
              = drop e text" .
  have "resubstitute (template_from text (m # ms) last_index)
          (map (\<lambda>(s, e). slice text s e) (m # ms))
        = ?g @ slice text s e @ drop e text"
    using m resubstitute_gap[OF g0] ih by simp
  also have "\<dots> = drop last_index text"
    using ord slice_drop[of s e "text"] slice_drop[of last_index s "text"] by simp
  finally show ?case .
qed

text \<open>
  Where the law holds. \<^verbatim>\<open>process_section\<close> records no positions: the template marks
  each match in-band with \<^verbatim>\<open>%s\<close>. For every text and every pattern, when the template
  holds exactly as many \<^verbatim>\<open>%s\<close> as tokens were extracted, putting the tokens back in
  order at the \<^verbatim>\<open>%s\<close> of the template gives the text back exactly. The condition is
  sufficient, not necessary.
\<close>

lemma process_section_round_trip:
  "process_section text pattern = (template, tokens) \<Longrightarrow>
   count_placeholders template = length tokens \<Longrightarrow>
   resubstitute template tokens = text"
proof -
  assume p: "process_section text pattern = (template, tokens)"
    and c: "count_placeholders template = length tokens"
  from p have t: "template = template_from text (finditer pattern text) 0"
    and k: "tokens = map (\<lambda>(s, e). slice text s e) (finditer pattern text)"
    by (simp_all add: process_section_template)
  have "ordered_spans 0 (finditer pattern text) (length text)"
    unfolding finditer_def by (rule finditer_from_ordered)
  from template_round_trip[OF this] c t k show ?thesis by simp
qed

lemma process_section_round_trip_example:
  \<open>process_section ''mov eax,[Game.exe+1A2B]\<newline>jmp "My Game.exe"+FF00:'' DYN_PATTERN
     = (''mov eax,[%s]\<newline>jmp %s'', [''Game.exe+1A2B'', ''"My Game.exe"+FF00:''])
   \<and> count_placeholders ''mov eax,[%s]\<newline>jmp %s''
       = length [''Game.exe+1A2B'', ''"My Game.exe"+FF00:'']
   \<and> resubstitute ''mov eax,[%s]\<newline>jmp %s'' [''Game.exe+1A2B'', ''"My Game.exe"+FF00:'']
       = ''mov eax,[Game.exe+1A2B]\<newline>jmp "My Game.exe"+FF00:''\<close>
proof -
  have p: \<open>process_section ''mov eax,[Game.exe+1A2B]\<newline>jmp "My Game.exe"+FF00:'' DYN_PATTERN
     = (''mov eax,[%s]\<newline>jmp %s'', [''Game.exe+1A2B'', ''"My Game.exe"+FF00:''])\<close>
    by code_simp
  have c: \<open>count_placeholders ''mov eax,[%s]\<newline>jmp %s''
       = length [''Game.exe+1A2B'', ''"My Game.exe"+FF00:'']\<close>
    by code_simp
  from process_section_round_trip[OF p c] p c show ?thesis by blast
qed

text \<open>
  Claim C1. The law fails on a text with a \<^verbatim>\<open>%s\<close> of its own: for \<^verbatim>\<open>%s Game.exe+1A\<close> the
  result is the template \<^verbatim>\<open>%s %s\<close> with one token, and re-substitution gives another
  text. The text \<^verbatim>\<open>Game.exe+1A %s\<close> has the same template and token, so no way of
  putting tokens back reconstructs both. The merged script inherits it: the fragment
  built from this template formats two \<^verbatim>\<open>%s\<close> with one argument and raises.
\<close>

theorem process_section_literal_placeholder:
  "process_section ''%s Game.exe+1A'' DYN_PATTERN = (''%s %s'', [''Game.exe+1A''])
   \<and> resubstitute ''%s %s'' [''Game.exe+1A''] \<noteq> ''%s Game.exe+1A''
   \<and> process_section ''Game.exe+1A %s'' DYN_PATTERN = (''%s %s'', [''Game.exe+1A''])
   \<and> lua_format_value ''enableScript'' ''addrE''
        (build_script_part ''%s %s'' 1 ''enableScript'' ''addrE'') [''Game.exe+1A''] = None"
  by code_simp


section \<open>Entry Matcher: counters and failures\<close>

text \<open>How many logged entries have an outcome of a given kind.\<close>

definition is_failed :: "outcome \<Rightarrow> bool" where
  "is_failed out = (case out of Failed e \<Rightarrow> True | _ \<Rightarrow> False)"

definition count_outcomes :: "(outcome \<Rightarrow> bool) \<Rightarrow> (string \<times> outcome) list \<Rightarrow> nat" where
  "count_outcomes p entries = length (filter (\<lambda>(k, out). p out) entries)"

lemma merge_entry_cases:
  "merge_entry asm_map2 (k, a1) st =
     (case map_of asm_map2 k of
        None \<Rightarrow> st\<lparr>skipped_count := skipped_count st + 1, logged := logged st @ [(k, Skipped)]\<rparr>
      | Some a2 \<Rightarrow>
          (case merge_asm_scripts (text_or_empty (texts_of st a1)) (text_or_empty (texts_of st a2)) of
             Inr merged_text \<Rightarrow>
               st\<lparr>texts_of := (texts_of st)(a1 \<mapsto> merged_text),
                  merged_count := merged_count st + 1,
                  logged := logged st @ [(k, Merged)]\<rparr>
           | Inl err \<Rightarrow>
               st\<lparr>error_count := error_count st + 1,
                  logged := logged st @ [(k, Failed err)]\<rparr>))"
  by (auto simp: merge_entry_def Let_def split: option.splits sum.splits py_error.splits)

lemma merge_entry_counts:
  "merged_count (merge_entry m2 item st) + skipped_count (merge_entry m2 item st)
     + error_count (merge_entry m2 item st)
     = Suc (merged_count st + skipped_count st + error_count st)"
  by (cases item) (auto simp: merge_entry_cases split: option.splits sum.splits)

lemma merge_entry_logged_keys:
  "map fst (logged (merge_entry m2 item st)) = map fst (logged st) @ [fst item]"
  by (cases item) (auto simp: merge_entry_cases split: option.splits sum.splits)

lemma merge_entry_tally:
  "merged_count st = count_outcomes (\<lambda>out. out = Merged) (logged st) \<Longrightarrow>
   skipped_count st = count_outcomes (\<lambda>out. out = Skipped) (logged st) \<Longrightarrow>
   error_count st = count_outcomes is_failed (logged st) \<Longrightarrow>
   merged_count (merge_entry m2 item st)
       = count_outcomes (\<lambda>out. out = Merged) (logged (merge_entry m2 item st))
   \<and> skipped_count (merge_entry m2 item st)
       = count_outcomes (\<lambda>out. out = Skipped) (logged (merge_entry m2 item st))
   \<and> error_count (merge_entry m2 item st)
       = count_outcomes is_failed (logged (merge_entry m2 item st))"
  by (cases item)
     (auto simp: merge_entry_cases count_outcomes_def is_failed_def split: option.splits sum.splits)

lemma merge_entry_frame:
  "a \<noteq> snd item \<Longrightarrow> texts_of (merge_entry m2 item st) a = texts_of st a"
  by (cases item) (auto simp: merge_entry_cases split: option.splits sum.splits)

lemma merge_entry_logged_mono:
  "x \<in> set (logged st) \<Longrightarrow> x \<in> set (logged (merge_entry m2 item st))"
  by (cases item) (auto simp: merge_entry_cases split: option.splits sum.splits)

lemma loop_counts:
  "merged_count (foldl (\<lambda>st item. merge_entry m2 item st) st items)
     + skipped_count (foldl (\<lambda>st item. merge_entry m2 item st) st items)
     + error_count (foldl (\<lambda>st item. merge_entry m2 item st) st items)
     = merged_count st + skipped_count st + error_count st + length items"
  by (induction items arbitrary: st) (simp_all add: merge_entry_counts)

lemma loop_logged_keys:
  "map fst (logged (foldl (\<lambda>st item. merge_entry m2 item st) st items))
     = map fst (logged st) @ map fst items"
  by (induction items arbitrary: st) (simp_all add: merge_entry_logged_keys)

lemma loop_tally:
  "merged_count st = count_outcomes (\<lambda>out. out = Merged) (logged st) \<Longrightarrow>
   skipped_count st = count_outcomes (\<lambda>out. out = Skipped) (logged st) \<Longrightarrow>
   error_count st = count_outcomes is_failed (logged st) \<Longrightarrow>
   merged_count (foldl (\<lambda>st item. merge_entry m2 item st) st items)
       = count_outcomes (\<lambda>out. out = Merged)
           (logged (foldl (\<lambda>st item. merge_entry m2 item st) st items))
   \<and> skipped_count (foldl (\<lambda>st item. merge_entry m2 item st) st items)
       = count_outcomes (\<lambda>out. out = Skipped)
           (logged (foldl (\<lambda>st item. merge_entry m2 item st) st items))
   \<and> error_count (foldl (\<lambda>st item. merge_entry m2 item st) st items)
       = count_outcomes is_failed
           (logged (foldl (\<lambda>st item. merge_entry m2 item st) st items))"
proof (induction items arbitrary: st)
  case Nil
  then show ?case by simp
next
  case (Cons item items)
  from merge_entry_tally[OF Cons.prems, of m2 item]
  have "merged_count (merge_entry m2 item st)
          = count_outcomes (\<lambda>out. out = Merged) (logged (merge_entry m2 item st))"
    and "skipped_count (merge_entry m2 item st)
          = count_outcomes (\<lambda>out. out = Skipped) (logged (merge_entry m2 item st))"
    and "error_count (merge_entry m2 item st)
          = count_outcomes is_failed (logged (merge_entry m2 item st))"
    by blast+
  from Cons.IH[OF this] show ?case by simp
qed

lemma loop_frame:
  "a \<notin> snd ` set items \<Longrightarrow>
     texts_of (foldl (\<lambda>st item. merge_entry m2 item st) st items) a = texts_of st a"
  by (induction items arbitrary: st) (simp_all add: merge_entry_frame)

lemma loop_logged_mono:
  "x \<in> set (logged st) \<Longrightarrow>
     x \<in> set (logged (foldl (\<lambda>st item. merge_entry m2 item st) st items))"
  by (induction items arbitrary: st) (simp_all add: merge_entry_logged_mono)

text \<open>
  Claim C3. For every pair of maps and every store, when \<^verbatim>\<open>merge_cheat_entries\<close> returns,
  the three counters add up to the number of entries of the first map; the entries
  logged are exactly the identifiers of the first map, in order, one outcome each, so
  no other identifier is processed and a failed entry stops nothing after it; each
  counter is the number of entries with that outcome; and no element outside the first
  map has its text changed. The function is total: a failing merge is a value handled
  in the loop body, never a result of the matcher.
\<close>

theorem merge_cheat_entries_counts:
  "merged_count (merge_cheat_entries asm_map1 asm_map2 txt)
     + skipped_count (merge_cheat_entries asm_map1 asm_map2 txt)
     + error_count (merge_cheat_entries asm_map1 asm_map2 txt) = length asm_map1
   \<and> map fst (logged (merge_cheat_entries asm_map1 asm_map2 txt)) = map fst asm_map1
   \<and> merged_count (merge_cheat_entries asm_map1 asm_map2 txt)
       = count_outcomes (\<lambda>out. out = Merged) (logged (merge_cheat_entries asm_map1 asm_map2 txt))
   \<and> skipped_count (merge_cheat_entries asm_map1 asm_map2 txt)
       = count_outcomes (\<lambda>out. out = Skipped) (logged (merge_cheat_entries asm_map1 asm_map2 txt))
   \<and> error_count (merge_cheat_entries asm_map1 asm_map2 txt)
       = count_outcomes is_failed (logged (merge_cheat_entries asm_map1 asm_map2 txt))
   \<and> (\<forall>a. a \<notin> snd ` set asm_map1 \<longrightarrow>
          texts_of (merge_cheat_entries asm_map1 asm_map2 txt) a = txt a)"
proof -
  let ?init = "\<lparr>texts_of = txt, merged_count = 0, skipped_count = 0, error_count = 0,
                 logged = []\<rparr>"
  have "merged_count ?init = count_outcomes (\<lambda>out. out = Merged) (logged ?init)"
    and "skipped_count ?init = count_outcomes (\<lambda>out. out = Skipped) (logged ?init)"
    and "error_count ?init = count_outcomes is_failed (logged ?init)"
    by (simp_all add: count_outcomes_def)
  from loop_tally[OF this, of asm_map2 asm_map1]
    loop_counts[of asm_map2 ?init asm_map1]
    loop_logged_keys[of asm_map2 ?init asm_map1]
    loop_frame[of _ asm_map1 asm_map2 ?init]
  show ?thesis
    unfolding merge_cheat_entries_def by simp
qed


theorem merge_cheat_entries_counts_witness:
  "(7::nat) \<notin> snd ` set [(''1'', 10), (''2'', 11), (''3'', 12)]
   \<and> texts_of (merge_cheat_entries [(''1'', 10), (''2'', 11), (''3'', 12)]
         [(''1'', 20), (''2'', 21)]
         [10 \<mapsto> ''[ENABLE]\<newline>Game.exe+1A\<newline>[DISABLE]\<newline>Game.exe+2B'',
          20 \<mapsto> ''[ENABLE]\<newline>Game.exe+3C Game.exe+3D\<newline>[DISABLE]\<newline>Game.exe+4D'',
          11 \<mapsto> ''nop'', 21 \<mapsto> ''nop'', 12 \<mapsto> ''ret'', 7 \<mapsto> ''other'']) 7
       = Some ''other''
   \<and> merged_count (merge_cheat_entries [(''1'', 10), (''2'', 11), (''3'', 12)]
         [(''1'', 20), (''2'', 21)]
         [10 \<mapsto> ''[ENABLE]\<newline>Game.exe+1A\<newline>[DISABLE]\<newline>Game.exe+2B'',
          20 \<mapsto> ''[ENABLE]\<newline>Game.exe+3C Game.exe+3D\<newline>[DISABLE]\<newline>Game.exe+4D'',
          11 \<mapsto> ''nop'', 21 \<mapsto> ''nop'', 12 \<mapsto> ''ret'', 7 \<mapsto> ''other''])
     + skipped_count (merge_cheat_entries [(''1'', 10), (''2'', 11), (''3'', 12)]
         [(''1'', 20), (''2'', 21)]
         [10 \<mapsto> ''[ENABLE]\<newline>Game.exe+1A\<newline>[DISABLE]\<newline>Game.exe+2B'',
          20 \<mapsto> ''[ENABLE]\<newline>Game.exe+3C Game.exe+3D\<newline>[DISABLE]\<newline>Game.exe+4D'',
          11 \<mapsto> ''nop'', 21 \<mapsto> ''nop'', 12 \<mapsto> ''ret'', 7 \<mapsto> ''other''])
     + error_count (merge_cheat_entries [(''1'', 10), (''2'', 11), (''3'', 12)]
         [(''1'', 20), (''2'', 21)]
         [10 \<mapsto> ''[ENABLE]\<newline>Game.exe+1A\<newline>[DISABLE]\<newline>Game.exe+2B'',
          20 \<mapsto> ''[ENABLE]\<newline>Game.exe+3C Game.exe+3D\<newline>[DISABLE]\<newline>Game.exe+4D'',
          11 \<mapsto> ''nop'', 21 \<mapsto> ''nop'', 12 \<mapsto> ''ret'', 7 \<mapsto> ''other'']) = 3
   \<and> map fst (logged (merge_cheat_entries [(''1'', 10), (''2'', 11), (''3'', 12)]
         [(''1'', 20), (''2'', 21)]
         [10 \<mapsto> ''[ENABLE]\<newline>Game.exe+1A\<newline>[DISABLE]\<newline>Game.exe+2B'',
          20 \<mapsto> ''[ENABLE]\<newline>Game.exe+3C Game.exe+3D\<newline>[DISABLE]\<newline>Game.exe+4D'',
          11 \<mapsto> ''nop'', 21 \<mapsto> ''nop'', 12 \<mapsto> ''ret'', 7 \<mapsto> ''other'']))
       = [''1'', ''2'', ''3'']"
proof -
  let ?m1 = "[(''1'', 10), (''2'', 11), (''3'', 12)] :: asm_map"
  let ?m2 = "[(''1'', 20), (''2'', 21)] :: asm_map"
  let ?t = "[10 \<mapsto> ''[ENABLE]\<newline>Game.exe+1A\<newline>[DISABLE]\<newline>Game.exe+2B'',
          20 \<mapsto> ''[ENABLE]\<newline>Game.exe+3C Game.exe+3D\<newline>[DISABLE]\<newline>Game.exe+4D'',
          11 \<mapsto> ''nop'', 21 \<mapsto> ''nop'', 12 \<mapsto> ''ret'', 7 \<mapsto> ''other''] :: texts"
  have n: "(7::nat) \<notin> snd ` set ?m1" by simp
  from merge_cheat_entries_counts[of ?m1 ?m2 ?t] n show ?thesis by simp
qed

lemma entry_outcome:
  assumes d: "distinct (map snd asm_map1)"
    and dj: "set (map snd asm_map1) \<inter> set (map snd asm_map2) = {}"
    and i: "(k, a1) \<in> set asm_map1"
  shows "case map_of asm_map2 k of
           None \<Rightarrow> texts_of (merge_cheat_entries asm_map1 asm_map2 txt) a1 = txt a1
                   \<and> (k, Skipped) \<in> set (logged (merge_cheat_entries asm_map1 asm_map2 txt))
         | Some a2 \<Rightarrow>
             (case merge_asm_scripts (text_or_empty (txt a1)) (text_or_empty (txt a2)) of
                Inl err \<Rightarrow>
                  texts_of (merge_cheat_entries asm_map1 asm_map2 txt) a1 = txt a1
                  \<and> (k, Failed err) \<in> set (logged (merge_cheat_entries asm_map1 asm_map2 txt))
              | Inr merged_text \<Rightarrow>
                  texts_of (merge_cheat_entries asm_map1 asm_map2 txt) a1 = Some merged_text
                  \<and> (k, Merged) \<in> set (logged (merge_cheat_entries asm_map1 asm_map2 txt)))"
proof -
  let ?f = "\<lambda>st item. merge_entry asm_map2 item st"
  let ?init = "\<lparr>texts_of = txt, merged_count = 0, skipped_count = 0, error_count = 0,
                 logged = []\<rparr>"
  from i obtain pre post where sp: "asm_map1 = pre @ (k, a1) # post"
    by (auto dest: split_list)
  define st1 where "st1 = foldl ?f ?init pre"
  define st2 where "st2 = merge_entry asm_map2 (k, a1) st1"
  have fin: "merge_cheat_entries asm_map1 asm_map2 txt = foldl ?f st2 post"
    unfolding merge_cheat_entries_def sp st1_def st2_def by simp
  from d sp have npre: "a1 \<notin> snd ` set pre" and npost: "a1 \<notin> snd ` set post"
    by auto
  have t1: "texts_of st1 a1 = txt a1"
    unfolding st1_def using loop_frame[OF npre, of asm_map2 ?init] by simp
  have keep: "texts_of (foldl ?f st2 post) a1 = texts_of st2 a1"
    using loop_frame[OF npost, of asm_map2 st2] .
  have mono: "x \<in> set (logged st2) \<Longrightarrow> x \<in> set (logged (foldl ?f st2 post))" for x
    by (rule loop_logged_mono)
  show ?thesis
  proof (cases "map_of asm_map2 k")
    case None
    then have "texts_of st2 a1 = txt a1" and "(k, Skipped) \<in> set (logged st2)"
      unfolding st2_def using t1 by (simp_all add: merge_entry_cases)
    with keep mono None show ?thesis unfolding fin by simp
  next
    case (Some a2)
    then have "(k, a2) \<in> set asm_map2" by (rule map_of_SomeD)
    then have "a2 \<in> set (map snd asm_map2)" by force
    with dj have "a2 \<notin> set (map snd asm_map1)" by auto
    with sp have "a2 \<notin> snd ` set pre" by auto
    then have t2: "texts_of st1 a2 = txt a2"
      unfolding st1_def using loop_frame[of a2 pre asm_map2 ?init] by simp
    show ?thesis
    proof (cases "merge_asm_scripts (text_or_empty (txt a1)) (text_or_empty (txt a2))")
      case (Inl err)
      then have "texts_of st2 a1 = txt a1" and "(k, Failed err) \<in> set (logged st2)"
        unfolding st2_def using t1 t2 Some by (simp_all add: merge_entry_cases)
      with keep mono Some Inl show ?thesis unfolding fin by simp
    next
      case (Inr merged_text)
      then have "texts_of st2 a1 = Some merged_text" and "(k, Merged) \<in> set (logged st2)"
        unfolding st2_def using t1 t2 Some by (simp_all add: merge_entry_cases)
      with keep mono Some Inr show ?thesis unfolding fin by simp
    qed
  qed
qed


text \<open>
  Claim C4. In the loop body, when the identifier is in the second map and the merge of
  the two texts fails, the state after the entry is the state before it with
  \<open>error_count\<close> raised by one and the failure logged: the store is untouched. The body
  changes the store only when the merge succeeded. Over the whole run, when the
  elements of the first map are pairwise distinct objects and none is an element of the
  second map (two parsed documents), the text of a failed entry's element after the run
  is its text before the run, the entry is logged as failed with its error, and
  \<open>error_count\<close> is the number of failed entries.
\<close>

theorem failed_merge_is_atomic:
  "(map_of asm_map2 cheat_id = Some asm_elem2
      \<and> merge_asm_scripts (text_or_empty (texts_of st asm_elem1))
            (text_or_empty (texts_of st asm_elem2)) = Inl err
    \<longrightarrow> merge_entry asm_map2 (cheat_id, asm_elem1) st
          = st\<lparr>error_count := error_count st + 1,
               logged := logged st @ [(cheat_id, Failed err)]\<rparr>)
   \<and> (texts_of (merge_entry asm_map2 (cheat_id, asm_elem1) st) \<noteq> texts_of st
    \<longrightarrow> (\<exists>a2 merged_text. map_of asm_map2 cheat_id = Some a2
           \<and> merge_asm_scripts (text_or_empty (texts_of st asm_elem1))
                 (text_or_empty (texts_of st a2)) = Inr merged_text))
   \<and> (distinct (map snd asm_map1)
      \<and> set (map snd asm_map1) \<inter> set (map snd asm_map2) = {}
      \<and> (cheat_id, asm_elem1) \<in> set asm_map1
      \<and> map_of asm_map2 cheat_id = Some asm_elem2
      \<and> merge_asm_scripts (text_or_empty (txt asm_elem1)) (text_or_empty (txt asm_elem2)) = Inl err
    \<longrightarrow> texts_of (merge_cheat_entries asm_map1 asm_map2 txt) asm_elem1 = txt asm_elem1
        \<and> (cheat_id, Failed err) \<in> set (logged (merge_cheat_entries asm_map1 asm_map2 txt))
        \<and> error_count (merge_cheat_entries asm_map1 asm_map2 txt)
            = count_outcomes is_failed (logged (merge_cheat_entries asm_map1 asm_map2 txt)))"
proof (intro conjI impI)
  assume "map_of asm_map2 cheat_id = Some asm_elem2
      \<and> merge_asm_scripts (text_or_empty (texts_of st asm_elem1))
            (text_or_empty (texts_of st asm_elem2)) = Inl err"
  then show "merge_entry asm_map2 (cheat_id, asm_elem1) st
          = st\<lparr>error_count := error_count st + 1,
               logged := logged st @ [(cheat_id, Failed err)]\<rparr>"
    by (simp add: merge_entry_cases)
next
  assume "texts_of (merge_entry asm_map2 (cheat_id, asm_elem1) st) \<noteq> texts_of st"
  then show "\<exists>a2 merged_text. map_of asm_map2 cheat_id = Some a2
           \<and> merge_asm_scripts (text_or_empty (texts_of st asm_elem1))
                 (text_or_empty (texts_of st a2)) = Inr merged_text"
    by (auto simp: merge_entry_cases split: option.splits sum.splits)
next
  assume a: "distinct (map snd asm_map1)
      \<and> set (map snd asm_map1) \<inter> set (map snd asm_map2) = {}
      \<and> (cheat_id, asm_elem1) \<in> set asm_map1
      \<and> map_of asm_map2 cheat_id = Some asm_elem2
      \<and> merge_asm_scripts (text_or_empty (txt asm_elem1)) (text_or_empty (txt asm_elem2)) = Inl err"
  then have d: "distinct (map snd asm_map1)"
    and dj: "set (map snd asm_map1) \<inter> set (map snd asm_map2) = {}"
    and i: "(cheat_id, asm_elem1) \<in> set asm_map1"
    by simp_all
  from entry_outcome[OF d dj i, of "txt"] a
  show "texts_of (merge_cheat_entries asm_map1 asm_map2 txt) asm_elem1 = txt asm_elem1"
    and "(cheat_id, Failed err) \<in> set (logged (merge_cheat_entries asm_map1 asm_map2 txt))"
    by simp_all
  let ?init = "\<lparr>texts_of = txt, merged_count = 0, skipped_count = 0, error_count = 0,
                 logged = []\<rparr>"
  have "merged_count ?init = count_outcomes (\<lambda>out. out = Merged) (logged ?init)"
    and "skipped_count ?init = count_outcomes (\<lambda>out. out = Skipped) (logged ?init)"
    and "error_count ?init = count_outcomes is_failed (logged ?init)"
    by (simp_all add: count_outcomes_def)
  from loop_tally[OF this, of asm_map2 asm_map1]
  show "error_count (merge_cheat_entries asm_map1 asm_map2 txt)
       = count_outcomes is_failed (logged (merge_cheat_entries asm_map1 asm_map2 txt))"
    unfolding merge_cheat_entries_def by simp
qed

theorem failed_merge_is_atomic_witness:
  "distinct (map snd [(''1'', 10::nat), (''2'', 11)])
   \<and> set (map snd [(''1'', 10::nat), (''2'', 11)]) \<inter> set (map snd [(''1'', 20::nat), (''2'', 21)]) = {}
   \<and> (''1'', 10) \<in> set [(''1'', 10::nat), (''2'', 11)]
   \<and> map_of [(''1'', 20::nat), (''2'', 21)] ''1'' = Some 20
   \<and> merge_asm_scripts
        (text_or_empty ([10 \<mapsto> ''[ENABLE]\<newline>Game.exe+1A Game.exe+1B\<newline>[DISABLE]\<newline>Game.exe+2B'',
          20 \<mapsto> ''[ENABLE]\<newline>Game.exe+3C Game.exe+3D Game.exe+3E\<newline>[DISABLE]\<newline>Game.exe+4D'',
          11 \<mapsto> ''nop'', 21 \<mapsto> ''nop''] (10::nat)))
        (text_or_empty ([10 \<mapsto> ''[ENABLE]\<newline>Game.exe+1A Game.exe+1B\<newline>[DISABLE]\<newline>Game.exe+2B'',
          20 \<mapsto> ''[ENABLE]\<newline>Game.exe+3C Game.exe+3D Game.exe+3E\<newline>[DISABLE]\<newline>Game.exe+4D'',
          11 \<mapsto> ''nop'', 21 \<mapsto> ''nop''] (20::nat)))
      = Inl (ValueError ''Mismatch in dynamic values count in ENABLE sections (2 vs 3)'')
   \<and> texts_of (merge_cheat_entries [(''1'', 10), (''2'', 11)] [(''1'', 20), (''2'', 21)]
         [10 \<mapsto> ''[ENABLE]\<newline>Game.exe+1A Game.exe+1B\<newline>[DISABLE]\<newline>Game.exe+2B'',
          20 \<mapsto> ''[ENABLE]\<newline>Game.exe+3C Game.exe+3D Game.exe+3E\<newline>[DISABLE]\<newline>Game.exe+4D'',
          11 \<mapsto> ''nop'', 21 \<mapsto> ''nop'']) 10
      = Some ''[ENABLE]\<newline>Game.exe+1A Game.exe+1B\<newline>[DISABLE]\<newline>Game.exe+2B''
   \<and> (''1'', Failed (ValueError ''Mismatch in dynamic values count in ENABLE sections (2 vs 3)''))
      \<in> set (logged (merge_cheat_entries [(''1'', 10), (''2'', 11)] [(''1'', 20), (''2'', 21)]
         [10 \<mapsto> ''[ENABLE]\<newline>Game.exe+1A Game.exe+1B\<newline>[DISABLE]\<newline>Game.exe+2B'',
          20 \<mapsto> ''[ENABLE]\<newline>Game.exe+3C Game.exe+3D Game.exe+3E\<newline>[DISABLE]\<newline>Game.exe+4D'',
          11 \<mapsto> ''nop'', 21 \<mapsto> ''nop'']))"
proof -
  let ?m1 = "[(''1'', 10), (''2'', 11)] :: asm_map"
  let ?m2 = "[(''1'', 20), (''2'', 21)] :: asm_map"
  let ?t = "[10 \<mapsto> ''[ENABLE]\<newline>Game.exe+1A Game.exe+1B\<newline>[DISABLE]\<newline>Game.exe+2B'',
          20 \<mapsto> ''[ENABLE]\<newline>Game.exe+3C Game.exe+3D Game.exe+3E\<newline>[DISABLE]\<newline>Game.exe+4D'',
          11 \<mapsto> ''nop'', 21 \<mapsto> ''nop''] :: texts"
  let ?e = "ValueError ''Mismatch in dynamic values count in ENABLE sections (2 vs 3)''"
  have h1: "distinct (map snd ?m1)" by simp
  have h2: "set (map snd ?m1) \<inter> set (map snd ?m2) = {}" by simp
  have h3: "(''1'', 10) \<in> set ?m1" by simp
  have h4: "map_of ?m2 ''1'' = Some 20" by simp
  have h5: "merge_asm_scripts (text_or_empty (?t 10)) (text_or_empty (?t 20)) = Inl ?e"
    by code_simp
  have t10: "?t 10 = Some ''[ENABLE]\<newline>Game.exe+1A Game.exe+1B\<newline>[DISABLE]\<newline>Game.exe+2B''"
    by simp
  from failed_merge_is_atomic[of ?m2 "''1''" 20 _ 10 ?e ?m1 ?t] h1 h2 h3 h4 h5
  have "texts_of (merge_cheat_entries ?m1 ?m2 ?t) 10 = ?t 10"
    and "(''1'', Failed ?e) \<in> set (logged (merge_cheat_entries ?m1 ?m2 ?t))"
    by blast+
  with h1 h2 h3 h4 h5 t10 show ?thesis by (simp only:)
qed


text \<open>
  The loop body of \<^verbatim>\<open>main\<close> in \<^verbatim>\<open>merge_script.py\<close> has the same shape without counters: a
  failing merge prints the error and leaves the store as it was.
\<close>

lemma main_entry_script_failure:
  "map_of asm_map2 cheat_id = Some asm_elem2 \<Longrightarrow>
   merge_call_script (txt asm_elem1) (txt asm_elem2) = Inl err \<Longrightarrow>
   main_entry_script asm_map2 (cheat_id, asm_elem1) (txt, printed)
     = (txt, printed @ [(cheat_id, Failed err)])"
  by (simp add: main_entry_script_def)



section \<open>Building the identifier map mutates the document\<close>

text \<open>
  What one \<^verbatim>\<open>CheatEntry\<close> contributes to the map: the stripped identifier and the
  \<^verbatim>\<open>AssemblerScript\<close> element filed under it, or nothing when the \<^verbatim>\<open>ID\<close> child, its text
  or the \<^verbatim>\<open>AssemblerScript\<close> child is missing.
\<close>

definition filing :: "texts \<Rightarrow> element \<Rightarrow> (string \<times> addr) option" where
  "filing txt cheat =
     (case find_child cheat ''ID'' of
        None \<Rightarrow> None
      | Some id_elem \<Rightarrow>
          (case txt (ref id_elem) of
             None \<Rightarrow> None
           | Some id_text \<Rightarrow>
               if id_text = [] then None
               else (case find_child cheat ''AssemblerScript'' of
                       None \<Rightarrow> None
                     | Some asm_elem \<Rightarrow> Some (strip id_text, ref asm_elem))))"

text \<open>The only change map building makes to a store: a text that was \<^verbatim>\<open>None\<close> becomes empty.\<close>

definition grown :: "texts \<Rightarrow> texts \<Rightarrow> bool" where
  "grown t t' = (\<forall>a. t' a = t a \<or> (t a = None \<and> t' a = Some []))"

lemma grown_refl: "grown t t"
  by (simp add: grown_def)

lemma grown_trans: "grown t t' \<Longrightarrow> grown t' t'' \<Longrightarrow> grown t t''"
  unfolding grown_def by (metis option.distinct(1))

lemma dict_set_keys: "fst ` set (dict_set m k v) = insert k (fst ` set m)"
  by (induction m k v rule: dict_set.induct) auto

lemma map_of_dict_set: "map_of (dict_set m k v) = (map_of m)(k \<mapsto> v)"
  by (induction m k v rule: dict_set.induct) auto

lemma scan_cheat_filing:
  "scan_cheat c (m, t) =
     (case filing t c of
        None \<Rightarrow> (m, t)
      | Some (k, a) \<Rightarrow> (dict_set m k a, if t a = None then t(a \<mapsto> []) else t))"
  by (auto simp: scan_cheat_def filing_def Let_def split: option.splits)

lemma scan_cheat_keys_mono:
  "k \<in> fst ` set m \<Longrightarrow> k \<in> fst ` set (fst (scan_cheat c (m, t)))"
  by (auto simp: scan_cheat_def Let_def dict_set_keys split: option.splits)

lemma scan_loop_keys_mono:
  "k \<in> fst ` set m \<Longrightarrow>
     k \<in> fst ` set (fst (foldl (\<lambda>st cheat. scan_cheat cheat st) (m, t) cs))"
proof (induction cs arbitrary: m t)
  case Nil
  then show ?case by simp
next
  case (Cons c cs)
  obtain m' t' where s: "scan_cheat c (m, t) = (m', t')" by (cases "scan_cheat c (m, t)")
  from scan_cheat_keys_mono[OF Cons.prems, of c t] s have "k \<in> fst ` set m'" by simp
  from Cons.IH[OF this, of t'] s show ?case by simp
qed

lemma scan_cheat_grown: "grown t (snd (scan_cheat c (m, t)))"
  by (auto simp: scan_cheat_filing grown_def split: option.splits)

lemma filing_grown: "grown t t' \<Longrightarrow> filing t' c = filing t c"
proof -
  assume g: "grown t t'"
  show ?thesis
  proof (cases "find_child c ''ID''")
    case None
    then show ?thesis by (simp add: filing_def)
  next
    case (Some ide)
    from g have "t' (ref ide) = t (ref ide) \<or> (t (ref ide) = None \<and> t' (ref ide) = Some [])"
      by (simp add: grown_def)
    then show ?thesis
    proof
      assume "t' (ref ide) = t (ref ide)"
      with Some show ?thesis by (simp add: filing_def)
    next
      assume "t (ref ide) = None \<and> t' (ref ide) = Some []"
      with Some show ?thesis by (simp add: filing_def)
    qed
  qed
qed

lemma scan_loop_grown:
  "grown t (snd (foldl (\<lambda>st cheat. scan_cheat cheat st) (m, t) cs))"
proof (induction cs arbitrary: m t)
  case Nil
  show ?case by (simp add: grown_refl)
next
  case (Cons c cs)
  obtain m' t' where s: "scan_cheat c (m, t) = (m', t')" by (cases "scan_cheat c (m, t)")
  from scan_cheat_grown[of t c m] s have "grown t t'" by simp
  from grown_trans[OF this Cons.IH[where m = m' and t = t']] s show ?case by simp
qed

lemma scan_loop_no_later:
  "\<forall>c \<in> set cs. map_option fst (filing t0 c) \<noteq> Some k \<Longrightarrow> grown t0 t \<Longrightarrow>
     map_of (fst (foldl (\<lambda>st cheat. scan_cheat cheat st) (m, t) cs)) k = map_of m k"
proof (induction cs arbitrary: m t)
  case Nil
  show ?case by simp
next
  case (Cons c cs)
  obtain m' t' where s: "scan_cheat c (m, t) = (m', t')" by (cases "scan_cheat c (m, t)")
  from scan_cheat_grown[of t c m] s have "grown t t'" by simp
  with Cons.prems(2) have g: "grown t0 t'" by (rule grown_trans)
  from Cons.prems(1) have no: "map_option fst (filing t0 c) \<noteq> Some k"
    and rest: "\<forall>c \<in> set cs. map_option fst (filing t0 c) \<noteq> Some k"
    by simp_all
  from no filing_grown[OF Cons.prems(2), of c] have "map_option fst (filing t c) \<noteq> Some k"
    by simp
  with s have "map_of m' k = map_of m k"
    by (auto simp: scan_cheat_filing map_of_dict_set split: option.splits)
  with Cons.IH[OF rest g, where m = m'] s show ?case by simp
qed

lemma scan_loop_filed:
  assumes sp: "cs = pre @ c # post"
    and f: "filing t0 c = Some (k, a)"
    and g: "grown t0 t"
  shows "snd (foldl (\<lambda>st cheat. scan_cheat cheat st) (m, t) cs) a \<noteq> None
    \<and> (t0 a = None \<longrightarrow> snd (foldl (\<lambda>st cheat. scan_cheat cheat st) (m, t) cs) a = Some [])
    \<and> k \<in> fst ` set (fst (foldl (\<lambda>st cheat. scan_cheat cheat st) (m, t) cs))
    \<and> ((\<forall>c' \<in> set post. map_option fst (filing t0 c') \<noteq> Some k) \<longrightarrow>
          map_of (fst (foldl (\<lambda>st cheat. scan_cheat cheat st) (m, t) cs)) k = Some a)"
proof -
  let ?f = "\<lambda>st cheat. scan_cheat cheat st"
  obtain m1 t1 where s1: "foldl ?f (m, t) pre = (m1, t1)" by (cases "foldl ?f (m, t) pre")
  obtain m2 t2 where s2: "scan_cheat c (m1, t1) = (m2, t2)" by (cases "scan_cheat c (m1, t1)")
  obtain m3 t3 where s3: "foldl ?f (m2, t2) post = (m3, t3)" by (cases "foldl ?f (m2, t2) post")
  have fin: "foldl ?f (m, t) cs = (m3, t3)"
    unfolding sp using s1 s2 s3 by simp
  from scan_loop_grown[of t m pre] s1 have "grown t t1" by simp
  with g have g1: "grown t0 t1" by (rule grown_trans)
  from filing_grown[OF g1, of c] f have f1: "filing t1 c = Some (k, a)" by simp
  from s2 f1 have m2: "m2 = dict_set m1 k a"
    and t2: "t2 = (if t1 a = None then t1(a \<mapsto> []) else t1)"
    by (simp_all add: scan_cheat_filing)
  from scan_cheat_grown[of t1 c m1] s2 have "grown t1 t2" by simp
  with g1 have g2: "grown t0 t2" by (rule grown_trans)
  from scan_loop_grown[of t2 m2 post] s3 have g23: "grown t2 t3" by simp
  from t2 have t2a: "t2 a \<noteq> None" by auto
  with g23 have t3a: "t3 a = t2 a" unfolding grown_def by metis
  from g1 have "t1 a = t0 a \<or> (t0 a = None \<and> t1 a = Some [])" by (simp add: grown_def)
  with t2 have "t0 a = None \<longrightarrow> t2 a = Some []" by auto
  with t3a t2a have c12: "t3 a \<noteq> None \<and> (t0 a = None \<longrightarrow> t3 a = Some [])" by simp
  have "k \<in> fst ` set m2" unfolding m2 by (simp add: dict_set_keys)
  then have "map_of m2 k \<noteq> None" by (simp add: map_of_eq_None_iff)
  have k2: "map_of m2 k = Some a" unfolding m2 by (simp add: map_of_dict_set)
  have keys: "k \<in> fst ` set m3"
    using scan_loop_keys_mono[OF \<open>k \<in> fst ` set m2\<close>, of t2 post] s3 by simp
  have last: "(\<forall>c' \<in> set post. map_option fst (filing t0 c') \<noteq> Some k) \<longrightarrow> map_of m3 k = Some a"
  proof
    assume "\<forall>c' \<in> set post. map_option fst (filing t0 c') \<noteq> Some k"
    from scan_loop_no_later[OF this g2, of m2] s3 k2 show "map_of m3 k = Some a" by simp
  qed
  from c12 keys last show ?thesis unfolding fin by simp
qed


text \<open>
  Claim C10, as the code has it. Let a document contain a \<^verbatim>\<open>CheatEntry\<close> that has an
  \<^verbatim>\<open>ID\<close> child with non-empty text and an \<^verbatim>\<open>AssemblerScript\<close> child whose text is
  \<^verbatim>\<open>None\<close>. Building the map sets that element's text to the empty string and makes the
  stripped identifier a key of the map; the map holds that very element under the key
  unless an entry later in the document is filed under the same identifier. The same
  holds for the document passed second to the two map constructions of \<^verbatim>\<open>main\<close>,
  whatever the first document is: the reference document is modified before any merge
  is attempted.
\<close>

theorem get_assembler_scripts_files_element:
  assumes "iter tree ''CheatEntry'' = pre @ cheat # post"
    and "find_child cheat ''ID'' = Some id_elem"
    and "txt (ref id_elem) = Some id_text"
    and "id_text \<noteq> []"
    and "find_child cheat ''AssemblerScript'' = Some asm_elem"
    and "txt (ref asm_elem) = None"
  shows "snd (get_assembler_scripts tree txt) (ref asm_elem) = Some []
   \<and> strip id_text \<in> fst ` set (fst (get_assembler_scripts tree txt))
   \<and> ((\<forall>later \<in> set post. map_option fst (filing txt later) \<noteq> Some (strip id_text))
        \<longrightarrow> map_of (fst (get_assembler_scripts tree txt)) (strip id_text) = Some (ref asm_elem))
   \<and> (\<forall>tree1.
         snd (snd (build_maps tree1 tree txt)) (ref asm_elem) = Some []
         \<and> strip id_text \<in> fst ` set (fst (snd (build_maps tree1 tree txt)))
         \<and> ((\<forall>later \<in> set post. map_option fst (filing txt later) \<noteq> Some (strip id_text))
              \<longrightarrow> map_of (fst (snd (build_maps tree1 tree txt))) (strip id_text)
                    = Some (ref asm_elem)))"
proof -
  have f: "filing txt cheat = Some (strip id_text, ref asm_elem)"
    using assms(2,3,4,5) by (simp add: filing_def)
  note one = scan_loop_filed[OF assms(1) f grown_refl, of "[]"]
  have first: "snd (get_assembler_scripts tree txt) (ref asm_elem) = Some []
   \<and> strip id_text \<in> fst ` set (fst (get_assembler_scripts tree txt))
   \<and> ((\<forall>later \<in> set post. map_option fst (filing txt later) \<noteq> Some (strip id_text))
        \<longrightarrow> map_of (fst (get_assembler_scripts tree txt)) (strip id_text) = Some (ref asm_elem))"
    using one assms(6) unfolding get_assembler_scripts_def by blast
  have second: "snd (snd (build_maps tree1 tree txt)) (ref asm_elem) = Some []
         \<and> strip id_text \<in> fst ` set (fst (snd (build_maps tree1 tree txt)))
         \<and> ((\<forall>later \<in> set post. map_option fst (filing txt later) \<noteq> Some (strip id_text))
              \<longrightarrow> map_of (fst (snd (build_maps tree1 tree txt))) (strip id_text)
                    = Some (ref asm_elem))" for tree1
  proof -
    obtain m1 t1 where g1: "get_assembler_scripts tree1 txt = (m1, t1)"
      by (cases "get_assembler_scripts tree1 txt")
    from scan_loop_grown[of "txt" "[]" "iter tree1 ''CheatEntry''"] g1
    have g: "grown txt t1" unfolding get_assembler_scripts_def by simp
    have b: "snd (build_maps tree1 tree txt) = get_assembler_scripts tree t1"
      unfolding build_maps_def using g1 by (simp add: split_beta)
    from scan_loop_filed[OF assms(1) f g, of "[]"] assms(6)
    show ?thesis unfolding b get_assembler_scripts_def by blast
  qed
  from first second show ?thesis by blast
qed

theorem get_assembler_scripts_files_element_witness:
  "iter (Element 0 ''CheatTable''
           [Element 1 ''CheatEntry'' [Element 2 ''ID'' [], Element 3 ''AssemblerScript'' []],
            Element 4 ''CheatEntry'' [Element 5 ''ID'' [], Element 6 ''AssemblerScript'' []]])
        ''CheatEntry''
     = [] @ Element 1 ''CheatEntry'' [Element 2 ''ID'' [], Element 3 ''AssemblerScript'' []]
          # [Element 4 ''CheatEntry'' [Element 5 ''ID'' [], Element 6 ''AssemblerScript'' []]]
   \<and> find_child (Element 1 ''CheatEntry'' [Element 2 ''ID'' [], Element 3 ''AssemblerScript'' []]) ''ID''
       = Some (Element 2 ''ID'' [])
   \<and> [2 \<mapsto> '' 12 '', 5 \<mapsto> ''13'', 6 \<mapsto> ''nop''] (ref (Element 2 ''ID'' [])) = Some '' 12 ''
   \<and> '' 12 '' \<noteq> []
   \<and> find_child (Element 1 ''CheatEntry'' [Element 2 ''ID'' [], Element 3 ''AssemblerScript'' []])
         ''AssemblerScript'' = Some (Element 3 ''AssemblerScript'' [])
   \<and> [2 \<mapsto> '' 12 '', 5 \<mapsto> ''13'', 6 \<mapsto> ''nop''] (ref (Element 3 ''AssemblerScript'' [])) = None
   \<and> list_all (\<lambda>later. map_option fst (filing [2 \<mapsto> '' 12 '', 5 \<mapsto> ''13'', 6 \<mapsto> ''nop''] later)
                         \<noteq> Some (strip '' 12 ''))
        [Element 4 ''CheatEntry'' [Element 5 ''ID'' [], Element 6 ''AssemblerScript'' []]]
   \<and> snd (get_assembler_scripts
            (Element 0 ''CheatTable''
               [Element 1 ''CheatEntry'' [Element 2 ''ID'' [], Element 3 ''AssemblerScript'' []],
                Element 4 ''CheatEntry'' [Element 5 ''ID'' [], Element 6 ''AssemblerScript'' []]])
            [2 \<mapsto> '' 12 '', 5 \<mapsto> ''13'', 6 \<mapsto> ''nop'']) 3 = Some []
   \<and> map_of (fst (get_assembler_scripts
            (Element 0 ''CheatTable''
               [Element 1 ''CheatEntry'' [Element 2 ''ID'' [], Element 3 ''AssemblerScript'' []],
                Element 4 ''CheatEntry'' [Element 5 ''ID'' [], Element 6 ''AssemblerScript'' []]])
            [2 \<mapsto> '' 12 '', 5 \<mapsto> ''13'', 6 \<mapsto> ''nop''])) ''12'' = Some 3
   \<and> snd (snd (build_maps (Element 9 ''CheatTable'' [])
            (Element 0 ''CheatTable''
               [Element 1 ''CheatEntry'' [Element 2 ''ID'' [], Element 3 ''AssemblerScript'' []],
                Element 4 ''CheatEntry'' [Element 5 ''ID'' [], Element 6 ''AssemblerScript'' []]])
            [2 \<mapsto> '' 12 '', 5 \<mapsto> ''13'', 6 \<mapsto> ''nop''])) 3 = Some []
   \<and> map_of (fst (snd (build_maps (Element 9 ''CheatTable'' [])
            (Element 0 ''CheatTable''
               [Element 1 ''CheatEntry'' [Element 2 ''ID'' [], Element 3 ''AssemblerScript'' []],
                Element 4 ''CheatEntry'' [Element 5 ''ID'' [], Element 6 ''AssemblerScript'' []]])
            [2 \<mapsto> '' 12 '', 5 \<mapsto> ''13'', 6 \<mapsto> ''nop'']))) ''12'' = Some 3"
proof -
  let ?c = "Element 1 ''CheatEntry'' [Element 2 ''ID'' [], Element 3 ''AssemblerScript'' []]"
  let ?d = "Element 4 ''CheatEntry'' [Element 5 ''ID'' [], Element 6 ''AssemblerScript'' []]"
  let ?T = "Element 0 ''CheatTable'' [?c, ?d]"
  let ?t = "[2 \<mapsto> '' 12 '', 5 \<mapsto> ''13'', 6 \<mapsto> ''nop''] :: texts"
  have h1: "iter ?T ''CheatEntry'' = [] @ ?c # [?d]" by (simp add: iter_def)
  have h2: "find_child ?c ''ID'' = Some (Element 2 ''ID'' [])" by (simp add: find_child_def)
  have h3: "?t (ref (Element 2 ''ID'' [])) = Some '' 12 ''" by simp
  have h4: "'' 12 '' \<noteq> []" by simp
  have h5: "find_child ?c ''AssemblerScript'' = Some (Element 3 ''AssemblerScript'' [])"
    by (simp add: find_child_def)
  have h6: "?t (ref (Element 3 ''AssemblerScript'' [])) = None" by simp
  have h7: "list_all (\<lambda>later. map_option fst (filing ?t later) \<noteq> Some (strip '' 12 '')) [?d]"
    by code_simp
  then have h7': "\<forall>later \<in> set [?d]. map_option fst (filing ?t later) \<noteq> Some (strip '' 12 '')"
    by (simp only: list_all_iff)
  have s: "strip '' 12 '' = ''12''" by code_simp
  have r: "ref (Element 3 ''AssemblerScript'' []) = 3" by simp
  note th = get_assembler_scripts_files_element[OF h1 h2 h3 h4 h5 h6]
  from th have c1: "snd (get_assembler_scripts ?T ?t) 3 = Some []"
    unfolding r by blast
  from th h7' have c2: "map_of (fst (get_assembler_scripts ?T ?t)) ''12'' = Some 3"
    unfolding r s by blast
  from th have c3: "snd (snd (build_maps (Element 9 ''CheatTable'' []) ?T ?t)) 3 = Some []"
    unfolding r by blast
  from th h7' have c4: "map_of (fst (snd (build_maps (Element 9 ''CheatTable'' []) ?T ?t))) ''12'' = Some 3"
    unfolding r s by blast
  from h1 h2 h3 h4 h5 h6 h7 c1 c2 c3 c4 show ?thesis by blast
qed

text \<open>
  Two things the claim as stated leaves out. A \<^verbatim>\<open>CheatEntry\<close> with no \<^verbatim>\<open>ID\<close> child is
  skipped: its empty \<^verbatim>\<open>AssemblerScript\<close> keeps the text \<^verbatim>\<open>None\<close> and the map stays empty.
  And of two entries with the same identifier the first has its text set to the empty
  string, but the map holds the element of the second.
\<close>

theorem get_assembler_scripts_entry_not_filed_counterexample:
  "snd (get_assembler_scripts
          (Element 0 ''CheatTable'' [Element 1 ''CheatEntry'' [Element 3 ''AssemblerScript'' []]])
          Map.empty) 3 = None
   \<and> fst (get_assembler_scripts
          (Element 0 ''CheatTable'' [Element 1 ''CheatEntry'' [Element 3 ''AssemblerScript'' []]])
          Map.empty) = []
   \<and> snd (get_assembler_scripts
          (Element 0 ''CheatTable''
             [Element 1 ''CheatEntry'' [Element 2 ''ID'' [], Element 3 ''AssemblerScript'' []],
              Element 4 ''CheatEntry'' [Element 5 ''ID'' [], Element 6 ''AssemblerScript'' []]])
          [2 \<mapsto> ''7'', 5 \<mapsto> ''7'', 6 \<mapsto> ''nop'']) 3 = Some []
   \<and> fst (get_assembler_scripts
          (Element 0 ''CheatTable''
             [Element 1 ''CheatEntry'' [Element 2 ''ID'' [], Element 3 ''AssemblerScript'' []],
              Element 4 ''CheatEntry'' [Element 5 ''ID'' [], Element 6 ''AssemblerScript'' []]])
          [2 \<mapsto> ''7'', 5 \<mapsto> ''7'', 6 \<mapsto> ''nop'']) = [(''7'', 6)]"
  by code_simp


end
